theory Spec2Isabelle
  imports Complex_Main "HOL-Library.List_Lexorder" "HOL-Library.Product_Lexorder"
begin

section \<open>Data model of clean\_and\_analyze.py\<close>

text \<open>
  A Python \<open>str\<close> is a sequence of Unicode code points, so a string is a list of
  natural numbers (\<open>ord\<close> of each character); the order on strings is Python's:
  lexicographic by code point, a proper prefix being smaller.  A row of a CSV file is
  a list of strings and a dataset a list of rows.
\<close>

type_synonym pystr = "nat list"
type_synonym row = "pystr list"
type_synonym dataset = "row list"

text \<open>The exceptions the functions of the script can raise.\<close>

datatype error = IndexError | KeyError | ValueError | ZeroDivisionError

text \<open>\<open>xs[i]\<close> for a literal index \<open>i \<ge> 0\<close>: IndexError out of range.\<close>

definition py_index :: "'a list \<Rightarrow> nat \<Rightarrow> error + 'a" where
  "py_index xs i = (if i < length xs then Inr (xs ! i) else Inl IndexError)"

text \<open>
  \<open>xs[i]\<close> for an index that is a parameter of the function: a negative index counts
  from the end of the list.
\<close>

definition py_index_int :: "'a list \<Rightarrow> int \<Rightarrow> error + 'a" where
  "py_index_int xs i =
     (if 0 \<le> i then py_index xs (nat i)
      else if - i \<le> int (length xs) then Inr (xs ! (length xs - nat (- i)))
      else Inl IndexError)"

text \<open>
  A \<open>dict\<close> keeps its keys in insertion order; assigning to a key that is present
  replaces the value in place, assigning to a new key appends it.  A dictionary is
  therefore an association list with distinct keys, read with \<open>map_of\<close>.
\<close>

type_synonym ('k, 'v) dict = "('k \<times> 'v) list"

fun dict_set :: "'k \<Rightarrow> 'v \<Rightarrow> ('k, 'v) dict \<Rightarrow> ('k, 'v) dict" where
  "dict_set k v [] = [(k, v)]"
| "dict_set k v ((k', v') # ps) = (if k' = k then (k, v) # ps else (k', v') # dict_set k v ps)"

definition dict_keys :: "('k, 'v) dict \<Rightarrow> 'k list" where
  "dict_keys d = map fst d"

text \<open>\<open>d[k]\<close>: KeyError when the key is missing.\<close>

definition dict_get :: "('k, 'v) dict \<Rightarrow> 'k \<Rightarrow> error + 'v" where
  "dict_get d k = (case map_of d k of None \<Rightarrow> Inl KeyError | Some v \<Rightarrow> Inr v)"

section \<open>Floating-point values\<close>

text \<open>
  A Python \<open>float\<close> is an IEEE double: a finite value, which is a rational number, an
  infinity, or NaN.  The two zeros are one value here: \<open><\<close> and \<open>==\<close>, the only
  operations the duplicate resolver applies to a float, do not tell them apart.
\<close>

datatype pyfloat = Finite rat | PosInf | NegInf | NaN

text \<open>\<open>x < y\<close> and \<open>x == y\<close> on floats: every comparison with NaN is false.\<close>

fun float_lt :: "pyfloat \<Rightarrow> pyfloat \<Rightarrow> bool" where
  "float_lt (Finite a) (Finite b) = (a < b)"
| "float_lt (Finite a) PosInf = True"
| "float_lt NegInf (Finite b) = True"
| "float_lt NegInf PosInf = True"
| "float_lt _ _ = False"

definition float_eq :: "pyfloat \<Rightarrow> pyfloat \<Rightarrow> bool" where
  "float_eq x y = (x \<noteq> NaN \<and> y \<noteq> NaN \<and> x = y)"

text \<open>
  The built-in \<open>float(s)\<close> is not part of the script.  Every function that calls it
  takes it as the parameter \<open>float\<close>, of type \<open>pystr \<Rightarrow> pyfloat option\<close>, where
  \<open>None\<close> is the ValueError of a string that does not parse; the theorems hold for
  every such function.  Concrete inputs are evaluated with \<open>float_of_digits\<close>, which is
  \<open>float\<close> on the strings of ASCII digits that denote an integer up to \<open>2^53\<close> (every
  such integer is a double, so the value is exact) and \<open>None\<close> on every other string.
\<close>

definition digits_value :: "pystr \<Rightarrow> nat" where
  "digits_value s = foldl (\<lambda>acc c. 10 * acc + (c - 48)) 0 s"

definition float_of_digits :: "pystr \<Rightarrow> pyfloat option" where
  "float_of_digits s =
     (if s \<noteq> [] \<and> list_all (\<lambda>c. 48 \<le> c \<and> c \<le> 57) s \<and> digits_value s \<le> 2 ^ 53
      then Some (Finite (of_nat (digits_value s))) else None)"

text \<open>
  Float arithmetic rounds, and its rounding is not part of the script either.  The
  functions that compute with floats take the operations as a record: \<open>fadd x y\<close> is
  \<open>x + y\<close>; \<open>fdiv x n\<close> is \<open>x / n\<close> for a float \<open>x\<close> and an int \<open>n \<ge> 1\<close>;
  \<open>fpercent c n\<close> is \<open>(c / n) * 100\<close> for ints \<open>1 \<le> c \<le> n\<close>, a finite float
  between 0 and 100, given by its rational value.  The theorems hold for every such
  record.  Concrete inputs are evaluated with \<open>exact_arith\<close>, the operations without
  rounding, at inputs whose exact results are doubles.
\<close>

record float_arith =
  fadd :: "pyfloat \<Rightarrow> pyfloat \<Rightarrow> pyfloat"
  fdiv :: "pyfloat \<Rightarrow> nat \<Rightarrow> pyfloat"
  fpercent :: "nat \<Rightarrow> nat \<Rightarrow> rat"

definition exact_arith :: float_arith where
  "exact_arith =
     \<lparr> fadd = (\<lambda>x y. case (x, y) of (Finite a, Finite b) \<Rightarrow> Finite (a + b) | _ \<Rightarrow> NaN),
       fdiv = (\<lambda>x n. case x of Finite a \<Rightarrow> Finite (a / of_nat n) | _ \<Rightarrow> x),
       fpercent = (\<lambda>c n. of_nat c / of_nat n * 100) \<rparr>"

section \<open>Step 1: delwrongdata\<close>

text \<open>
  The first loop, \<open>for i, row in enumerate(dataset)\<close>, collects the indices of the
  rows whose length differs from \<open>ref_len\<close> (and prints each of them).
\<close>

fun wrong_indices :: "nat \<Rightarrow> nat \<Rightarrow> dataset \<Rightarrow> nat list \<Rightarrow> nat list" where
  "wrong_indices ref_len i [] acc = acc"
| "wrong_indices ref_len i (row # rows) acc =
     wrong_indices ref_len (Suc i) rows (if length row \<noteq> ref_len then acc @ [i] else acc)"

text \<open>\<open>del dataset[i]\<close>: IndexError when \<open>i\<close> is out of range.\<close>

definition del_item :: "'a list \<Rightarrow> nat \<Rightarrow> error + 'a list" where
  "del_item xs i = (if i < length xs then Inr (take i xs @ drop (Suc i) xs) else Inl IndexError)"

text \<open>The second loop deletes at each index of the list it is given, in that order.\<close>

fun del_items :: "nat list \<Rightarrow> 'a list \<Rightarrow> error + 'a list" where
  "del_items [] xs = Inr xs"
| "del_items (i # is) xs = (case del_item xs i of Inl e \<Rightarrow> Inl e | Inr xs' \<Rightarrow> del_items is xs')"

text \<open>
  \<open>ref_len = len(dataset[0])\<close> raises IndexError on an empty dataset.  The list is
  mutated in place and returned; the model returns the new value.
\<close>

definition delwrongdata :: "dataset \<Rightarrow> error + dataset" where
  "delwrongdata dataset =
     (case py_index dataset 0 of
        Inl e \<Rightarrow> Inl e
      | Inr first \<Rightarrow>
          del_items (rev (wrong_indices (length first) 0 dataset [])) dataset)"

section \<open>Steps 3 and 4: createdicodup and deldupdata\<close>

text \<open>
  The loop of \<open>createdicodup\<close>.  The \<open>if\<close>/\<open>elif\<close> of the source reads: the name is
  in the dictionary and the stored value is smaller (store the new one); the name is in
  the dictionary otherwise (nothing happens); the name is not in the dictionary (store).
\<close>

fun createdicodup_loop ::
  "(pystr \<Rightarrow> pyfloat option) \<Rightarrow> dataset \<Rightarrow> (pystr, pyfloat) dict \<Rightarrow> error + (pystr, pyfloat) dict" where
  "createdicodup_loop float [] reviews_max = Inr reviews_max"
| "createdicodup_loop float (app # rest) reviews_max =
     (case py_index app 0 of
        Inl e \<Rightarrow> Inl e
      | Inr name \<Rightarrow>
     (case py_index app 3 of
        Inl e \<Rightarrow> Inl e
      | Inr field \<Rightarrow>
     (case float field of
        None \<Rightarrow> Inl ValueError
      | Some n_reviews \<Rightarrow>
          createdicodup_loop float rest
            (case map_of reviews_max name of
               Some stored \<Rightarrow>
                 if float_lt stored n_reviews then dict_set name n_reviews reviews_max
                 else reviews_max
             | None \<Rightarrow> dict_set name n_reviews reviews_max))))"

definition createdicodup ::
  "(pystr \<Rightarrow> pyfloat option) \<Rightarrow> dataset \<Rightarrow> error + (pystr, pyfloat) dict" where
  "createdicodup float dataset = createdicodup_loop float dataset []"

text \<open>
  The loop of \<open>deldupdata\<close>.  Python's \<open>and\<close> evaluates \<open>reviews_max[name]\<close> only
  when the name is not in \<open>already_added\<close>; a missing key raises KeyError there.
\<close>

fun deldupdata_loop ::
  "(pystr \<Rightarrow> pyfloat option) \<Rightarrow> dataset \<Rightarrow> (pystr, pyfloat) dict \<Rightarrow> dataset \<Rightarrow> pystr list
     \<Rightarrow> error + dataset" where
  "deldupdata_loop float [] reviews_max android_clean already_added = Inr android_clean"
| "deldupdata_loop float (app # rest) reviews_max android_clean already_added =
     (case py_index app 0 of
        Inl e \<Rightarrow> Inl e
      | Inr name \<Rightarrow>
     (case py_index app 3 of
        Inl e \<Rightarrow> Inl e
      | Inr field \<Rightarrow>
     (case float field of
        None \<Rightarrow> Inl ValueError
      | Some n_reviews \<Rightarrow>
          if name \<notin> set already_added then
            (case dict_get reviews_max name of
               Inl e \<Rightarrow> Inl e
             | Inr stored \<Rightarrow>
                 if float_eq stored n_reviews
                 then deldupdata_loop float rest reviews_max (android_clean @ [app])
                        (already_added @ [name])
                 else deldupdata_loop float rest reviews_max android_clean already_added)
          else deldupdata_loop float rest reviews_max android_clean already_added)))"

definition deldupdata ::
  "(pystr \<Rightarrow> pyfloat option) \<Rightarrow> dataset \<Rightarrow> (pystr, pyfloat) dict \<Rightarrow> error + dataset" where
  "deldupdata float dataset reviews_max = deldupdata_loop float dataset reviews_max [] []"

section \<open>Step 5: is\_english\<close>

text \<open>
  The loop over the characters of the name, with its counter; the early
  \<open>return False\<close> is the branch that stops the recursion.
\<close>

fun is_english_loop :: "nat \<Rightarrow> pystr \<Rightarrow> bool" where
  "is_english_loop non_ascii [] = True"
| "is_english_loop non_ascii (character # rest) =
     (let non_ascii' = (if character > 127 then non_ascii + 1 else non_ascii)
      in if non_ascii' > 3 then False else is_english_loop non_ascii' rest)"

definition is_english :: "pystr \<Rightarrow> bool" where
  "is_english name = is_english_loop 0 name"

section \<open>Step 6: filter\_english\_and\_free\<close>

text \<open>
  The four loops of the function.  The two loops that keep the English rows differ only
  in the column of the name (0 for Google Play, 1 for the App Store); the two loops that
  keep the free rows compare the price with string literals: \<open>'0'\<close> is \<open>[48]\<close> and
  \<open>'0.0'\<close> is \<open>[48, 46, 48]\<close>.
\<close>

fun english_rows :: "nat \<Rightarrow> dataset \<Rightarrow> dataset \<Rightarrow> error + dataset" where
  "english_rows col [] english = Inr english"
| "english_rows col (app # rest) english =
     (case py_index app col of
        Inl e \<Rightarrow> Inl e
      | Inr name \<Rightarrow>
          english_rows col rest (if is_english name then english @ [app] else english))"

fun android_free_rows :: "dataset \<Rightarrow> dataset \<Rightarrow> error + dataset" where
  "android_free_rows [] android_free = Inr android_free"
| "android_free_rows (app # rest) android_free =
     (case py_index app 7 of
        Inl e \<Rightarrow> Inl e
      | Inr price \<Rightarrow>
          android_free_rows rest (if price = [48] then android_free @ [app] else android_free))"

fun apple_free_rows :: "dataset \<Rightarrow> dataset \<Rightarrow> error + dataset" where
  "apple_free_rows [] apple_free = Inr apple_free"
| "apple_free_rows (app # rest) apple_free =
     (case py_index app 4 of
        Inl e \<Rightarrow> Inl e
      | Inr price \<Rightarrow>
          apple_free_rows rest
            (if price = [48, 46, 48] \<or> price = [48] then apple_free @ [app] else apple_free))"

definition filter_english_and_free :: "dataset \<Rightarrow> dataset \<Rightarrow> error + (dataset \<times> dataset)" where
  "filter_english_and_free google_data apple_data =
     (case english_rows 0 google_data [] of
        Inl e \<Rightarrow> Inl e
      | Inr android_english \<Rightarrow>
     (case english_rows 1 apple_data [] of
        Inl e \<Rightarrow> Inl e
      | Inr ios_english \<Rightarrow>
     (case android_free_rows android_english [] of
        Inl e \<Rightarrow> Inl e
      | Inr android_free \<Rightarrow>
     (case apple_free_rows ios_english [] of
        Inl e \<Rightarrow> Inl e
      | Inr apple_free \<Rightarrow> Inr (android_free, apple_free)))))"

section \<open>Step 7: freq\_table and display\_table\<close>

text \<open>
  The first loop of \<open>freq_table\<close> counts the rows and the occurrences of each value
  of the column; the second loop, over the keys of the table, stores the percentages.
  The division raises ZeroDivisionError when \<open>total\<close> is 0 (which no run reaches:
  the table has no key then).
\<close>

fun freq_count ::
  "int \<Rightarrow> dataset \<Rightarrow> (pystr, nat) dict \<Rightarrow> nat \<Rightarrow> error + ((pystr, nat) dict \<times> nat)" where
  "freq_count index [] table total' = Inr (table, total')"
| "freq_count index (row # rows) table total' =
     (case py_index_int row index of
        Inl e \<Rightarrow> Inl e
      | Inr genre \<Rightarrow>
          freq_count index rows
            (case map_of table genre of
               Some c \<Rightarrow> dict_set genre (c + 1) table
             | None \<Rightarrow> dict_set genre 1 table)
            (total' + 1))"

fun freq_percentages ::
  "float_arith \<Rightarrow> (pystr, nat) dict \<Rightarrow> nat \<Rightarrow> pystr list \<Rightarrow> (pystr, rat) dict
     \<Rightarrow> error + (pystr, rat) dict" where
  "freq_percentages fa table total' [] table_percentages = Inr table_percentages"
| "freq_percentages fa table total' (key # keys) table_percentages =
     (case dict_get table key of
        Inl e \<Rightarrow> Inl e
      | Inr c \<Rightarrow>
          if total' = 0 then Inl ZeroDivisionError
          else freq_percentages fa table total' keys
                 (dict_set key (fpercent fa c total') table_percentages))"

definition freq_table :: "float_arith \<Rightarrow> dataset \<Rightarrow> int \<Rightarrow> error + (pystr, rat) dict" where
  "freq_table fa database index =
     (case freq_count index database [] 0 of
        Inl e \<Rightarrow> Inl e
      | Inr (table, total') \<Rightarrow> freq_percentages fa table total' (dict_keys table) [])"

text \<open>
  \<open>sorted(xs, reverse=True)\<close>: the list is reversed, sorted in ascending order by a
  stable sort and reversed again.  The entries are tuples \<open>(percentage, key)\<close>, compared
  lexicographically.  \<open>display_table\<close> prints \<open>entry[1], ':', entry[0]\<close> for each sorted
  entry; its model returns the printed pairs in the order of the lines.
\<close>

definition sorted_reverse :: "('a :: linorder) list \<Rightarrow> 'a list" where
  "sorted_reverse xs = rev (sort (rev xs))"

definition display_table :: "float_arith \<Rightarrow> dataset \<Rightarrow> int \<Rightarrow> error + (pystr \<times> rat) list" where
  "display_table fa dataset index =
     (case freq_table fa dataset index of
        Inl e \<Rightarrow> Inl e
      | Inr table \<Rightarrow>
          Inr (map (\<lambda>entry. (snd entry, fst entry))
                 (sorted_reverse (map (\<lambda>(key, val). (val, key)) table))))"

section \<open>Averages per genre and per category\<close>

text \<open>\<open>s.replace(c, '')\<close> for a string \<open>c\<close> of one character.\<close>

definition str_remove :: "nat \<Rightarrow> pystr \<Rightarrow> pystr" where
  "str_remove c s = filter (\<lambda>x. x \<noteq> c) s"

text \<open>
  \<open>compute_apple_genre_avg_ratings\<close> and \<open>compute_google_category_avg_installs\<close> are
  the same two nested loops, up to the column of the category (\<open>gcol\<close>: 11 and 1) and
  what is done to field 5 before \<open>float\<close> (\<open>prep\<close>: nothing, and deleting every
  \<open>'+'\<close> and \<open>','\<close>).  \<open>avg_inner\<close> is the loop over the rows for one category,
  \<open>avg_outer\<close> the loop over the keys of the frequency table.  \<open>total\<close> starts as the
  int 0, which as a float is 0.0.
\<close>

fun avg_inner ::
  "(pystr \<Rightarrow> pyfloat option) \<Rightarrow> float_arith \<Rightarrow> nat \<Rightarrow> (pystr \<Rightarrow> pystr) \<Rightarrow> pystr \<Rightarrow> dataset
     \<Rightarrow> pyfloat \<Rightarrow> nat \<Rightarrow> error + (pyfloat \<times> nat)" where
  "avg_inner float fa gcol prep category [] total' len = Inr (total', len)"
| "avg_inner float fa gcol prep category (row # rows) total' len =
     (case py_index row gcol of
        Inl e \<Rightarrow> Inl e
      | Inr category_app \<Rightarrow>
          if category_app = category then
            (case py_index row 5 of
               Inl e \<Rightarrow> Inl e
             | Inr field \<Rightarrow>
            (case float (prep field) of
               None \<Rightarrow> Inl ValueError
             | Some x \<Rightarrow> avg_inner float fa gcol prep category rows (fadd fa total' x) (len + 1)))
          else avg_inner float fa gcol prep category rows total' len)"

fun avg_outer ::
  "(pystr \<Rightarrow> pyfloat option) \<Rightarrow> float_arith \<Rightarrow> nat \<Rightarrow> (pystr \<Rightarrow> pystr) \<Rightarrow> pystr list \<Rightarrow> dataset
     \<Rightarrow> (pystr, pyfloat) dict \<Rightarrow> error + (pystr, pyfloat) dict" where
  "avg_outer float fa gcol prep [] data results = Inr results"
| "avg_outer float fa gcol prep (category # categories) data results =
     (case avg_inner float fa gcol prep category data (Finite 0) 0 of
        Inl e \<Rightarrow> Inl e
      | Inr (total', len) \<Rightarrow>
          if len = 0 then Inl ZeroDivisionError
          else avg_outer float fa gcol prep categories data
                 (dict_set category (fdiv fa total' len) results))"

definition compute_apple_genre_avg_ratings ::
  "(pystr \<Rightarrow> pyfloat option) \<Rightarrow> float_arith \<Rightarrow> dataset \<Rightarrow> error + (pystr, pyfloat) dict" where
  "compute_apple_genre_avg_ratings float fa apple_data =
     (case freq_table fa apple_data 11 of
        Inl e \<Rightarrow> Inl e
      | Inr genre_freq \<Rightarrow>
          avg_outer float fa 11 (\<lambda>rating. rating) (dict_keys genre_freq) apple_data [])"

definition compute_google_category_avg_installs ::
  "(pystr \<Rightarrow> pyfloat option) \<Rightarrow> float_arith \<Rightarrow> dataset \<Rightarrow> error + (pystr, pyfloat) dict" where
  "compute_google_category_avg_installs float fa google_data =
     (case freq_table fa google_data 1 of
        Inl e \<Rightarrow> Inl e
      | Inr category_freq \<Rightarrow>
          avg_outer float fa 1 (\<lambda>installs. str_remove 44 (str_remove 43 installs))
            (dict_keys category_freq) google_data [])"

section \<open>Notions used in the proofs\<close>

text \<open>
  The floats that are not NaN are linearly ordered; \<open>float_rank\<close> embeds them into a
  linear order of HOL.
\<close>

fun float_rank :: "pyfloat \<Rightarrow> nat \<times> rat" where
  "float_rank NegInf = (0, 0)"
| "float_rank (Finite a) = (1, a)"
| "float_rank PosInf = (2, 0)"
| "float_rank NaN = (3, 0)"

text \<open>One iteration of \<open>createdicodup\<close> on the dictionary.\<close>

definition index_step :: "(pystr, pyfloat) dict \<Rightarrow> pystr \<Rightarrow> pyfloat \<Rightarrow> (pystr, pyfloat) dict" where
  "index_step rm name v =
     (case map_of rm name of
        Some stored \<Rightarrow> if float_lt stored v then dict_set name v rm else rm
      | None \<Rightarrow> dict_set name v rm)"

definition good_row :: "(pystr \<Rightarrow> pyfloat option) \<Rightarrow> row \<Rightarrow> bool" where
  "good_row float app = (3 < length app \<and> (\<exists>v. float (app ! 3) = Some v \<and> v \<noteq> NaN))"

definition is_max_of :: "(pystr \<Rightarrow> pyfloat option) \<Rightarrow> pyfloat \<Rightarrow> pystr \<Rightarrow> dataset \<Rightarrow> bool" where
  "is_max_of float m n d = (\<forall>app\<in>set d. app ! 0 = n \<longrightarrow>
      (\<forall>v. float (app ! 3) = Some v \<longrightarrow> float_rank v \<le> float_rank m))"

text \<open>The rows \<open>deldupdata\<close> accepts for the name \<open>n\<close>, were the name not yet added.\<close>

definition row_matches ::
  "(pystr \<Rightarrow> pyfloat option) \<Rightarrow> (pystr, pyfloat) dict \<Rightarrow> pystr \<Rightarrow> row \<Rightarrow> bool" where
  "row_matches float rm n app =
     (app ! 0 = n \<and> (\<exists>stored v. map_of rm n = Some stored \<and> float (app ! 3) = Some v
                        \<and> float_eq stored v))"

text \<open>The number of rows of the dataset whose field at \<open>index\<close> is \<open>k\<close>.\<close>

definition field_count :: "dataset \<Rightarrow> int \<Rightarrow> pystr \<Rightarrow> nat" where
  "field_count d index k = length (filter (\<lambda>row. py_index_int row index = Inr k) d)"

text \<open>One iteration of the first loop of \<open>freq_table\<close> on the table, and its invariant.\<close>

definition count_step :: "(pystr, nat) dict \<Rightarrow> pystr \<Rightarrow> (pystr, nat) dict" where
  "count_step table genre =
     (case map_of table genre of
        Some c \<Rightarrow> dict_set genre (c + 1) table
      | None \<Rightarrow> dict_set genre 1 table)"

definition count_in :: "(pystr, nat) dict \<Rightarrow> pystr \<Rightarrow> nat" where
  "count_in table k = (case map_of table k of None \<Rightarrow> 0 | Some c \<Rightarrow> c)"

definition table_ok :: "(pystr, nat) dict \<Rightarrow> bool" where
  "table_ok table = (distinct (dict_keys table) \<and> (\<forall>k c. map_of table k = Some c \<longrightarrow> 0 < c))"

text \<open>
  The percentage grows with the count: for a table of \<open>n\<close> rows, a larger count gives a
  larger float \<open>(c / n) * 100\<close>.  Exact arithmetic has this property for every \<open>n\<close>;
  rounding to doubles keeps it as long as two counts cannot round to the same quotient.
\<close>

definition count_increasing :: "float_arith \<Rightarrow> nat \<Rightarrow> bool" where
  "count_increasing fa n =
     (\<forall>c c'. 0 < c \<and> c < c' \<and> c' \<le> n \<longrightarrow> fpercent fa c n < fpercent fa c' n)"

text \<open>
  The arithmetic mean of a list of floats in float arithmetic: the sum from 0, added from
  left to right, divided by the number of values.
\<close>

definition float_mean :: "float_arith \<Rightarrow> pyfloat list \<Rightarrow> pyfloat" where
  "float_mean fa vs = fdiv fa (foldl (fadd fa) (Finite 0) vs) (length vs)"

text \<open>A row of the category whose field 5 does not parse; the parsed fields of a category.\<close>

definition bad_in ::
  "(pystr \<Rightarrow> pyfloat option) \<Rightarrow> nat \<Rightarrow> (pystr \<Rightarrow> pystr) \<Rightarrow> pystr \<Rightarrow> dataset \<Rightarrow> bool" where
  "bad_in float gcol prep category rows =
     (\<exists>row\<in>set rows. row ! gcol = category \<and> float (prep (row ! 5)) = None)"

definition values_of ::
  "(pystr \<Rightarrow> pyfloat option) \<Rightarrow> nat \<Rightarrow> (pystr \<Rightarrow> pystr) \<Rightarrow> pystr \<Rightarrow> dataset \<Rightarrow> pyfloat list" where
  "values_of float gcol prep category rows =
     map (\<lambda>row. the (float (prep (row ! 5)))) (filter (\<lambda>row. row ! gcol = category) rows)"

section \<open>Example data\<close>

text \<open>
  Three Google Play rows of eight fields (name, category, rating, reviews, size, installs,
  type, price): the apps A (category G, 5 reviews, "10,000+" installs, price "0"), A again
  (category G, 9 reviews, "20,000+", price "0") and B (category T, 9 reviews, "500+",
  price "0.00").
\<close>

definition example_google :: dataset where
  "example_google =
     [[[65], [71], [], [53], [], [49, 48, 44, 48, 48, 48, 43], [], [48]],
      [[65], [71], [], [57], [], [50, 48, 44, 48, 48, 48, 43], [], [48]],
      [[66], [84], [], [57], [], [53, 48, 48, 43], [], [48, 46, 48, 48]]]"

text \<open>
  A dataset whose second row has shifted fields: category "1.9", reviews "3.0M", installs
  "Free".
\<close>

definition example_corrupt :: dataset where
  "example_corrupt =
     [[[65], [71], [], [53], [], [49, 48, 44, 48, 48, 48, 43], [], [48]],
      [[76], [49, 46, 57], [], [51, 46, 48, 77], [], [70, 114, 101, 101], [], [48]]]"

text \<open>
  Three App Store rows of twelve fields (name in field 1, price in field 4, number of
  ratings in field 5, genre in field 11): A (price "0.0", 100 ratings, genre X), B (price
  "1.99", 300 ratings, genre X) and C (price "0", 7 ratings, genre Y).
\<close>

definition example_apple :: dataset where
  "example_apple =
     [[[], [65], [], [], [48, 46, 48], [49, 48, 48], [], [], [], [], [], [88]],
      [[], [66], [], [], [49, 46, 57, 57], [51, 48, 48], [], [], [], [], [], [88]],
      [[], [67], [], [], [48], [55], [], [], [], [], [], [89]]]"

text \<open>Four rows whose field 1 is B, C, B, D.\<close>

definition example_table :: dataset where
  "example_table = [[[65], [66]], [[65], [67]], [[65], [66]], [[65], [68]]]"

definition example_installs :: "row \<Rightarrow> pyfloat" where
  "example_installs row = the (float_of_digits (str_remove 44 (str_remove 43 (row ! 5))))"

definition example_rating :: "row \<Rightarrow> pyfloat" where
  "example_rating row = the (float_of_digits (row ! 5))"

section \<open>The language filter\<close>

lemma is_english_loop_count:
  "k \<le> 3 \<Longrightarrow> is_english_loop k name = (k + length (filter (\<lambda>c. c > 127) name) \<le> 3)"
  by (induction name arbitrary: k) (auto simp: Let_def)

text \<open>
  Claim C3.  \<open>is_english\<close> returns True exactly when at most three characters of the
  name have a code point above 127, and False when more than three have.  The name
  "Instachat" followed by a space and the emoji U+1F61C (one code point above 127) is
  English; the name of fourteen characters of which nine are CJK characters or CJK
  brackets is not.
\<close>

theorem is_english_threshold:
  "is_english name = (length (filter (\<lambda>c. c > 127) name) \<le> 3)
   \<and> is_english [73, 110, 115, 116, 97, 99, 104, 97, 116, 32, 128540]
   \<and> \<not> is_english [29233, 22855, 33402, 80, 80, 83, 32, 45, 12298, 27426, 20048, 39042, 50, 12299]"
  by (simp add: is_english_def is_english_loop_count)

section \<open>The row validator\<close>

lemma wrong_indices_acc:
  "wrong_indices n i d acc = acc @ wrong_indices n i d []"
proof (induction d arbitrary: i acc)
  case Nil
  then show ?case by simp
next
  case (Cons r rs)
  show ?case
    using Cons.IH [of "Suc i" "acc @ [i]"] Cons.IH [of "Suc i" "[i]"] Cons.IH [of "Suc i" acc]
    by simp
qed

lemma del_items_append:
  "del_items (is @ js) xs = (case del_items is xs of Inl e \<Rightarrow> Inl e | Inr xs' \<Rightarrow> del_items js xs')"
  by (induction "is" arbitrary: xs) (auto split: sum.splits)

lemma del_item_middle: "del_item (pre @ r # post) (length pre) = Inr (pre @ post)"
  by (simp add: del_item_def)

lemma del_items_wrong:
  "del_items (rev (wrong_indices n (length pre) d [])) (pre @ d)
     = Inr (pre @ filter (\<lambda>row. length row = n) d)"
proof (induction d arbitrary: pre)
  case Nil
  then show ?case by simp
next
  case (Cons r rs)
  have ih: "del_items (rev (wrong_indices n (Suc (length pre)) rs [])) (pre @ r # rs)
     = Inr (pre @ r # filter (\<lambda>row. length row = n) rs)"
    using Cons.IH [of "pre @ [r]"] by simp
  show ?case
  proof (cases "length r = n")
    case True
    then show ?thesis using ih by simp
  next
    case False
    have "wrong_indices n (length pre) (r # rs) []
        = [length pre] @ wrong_indices n (Suc (length pre)) rs []"
      using False wrong_indices_acc [of n "Suc (length pre)" rs "[length pre]"] by simp
    then show ?thesis
      using False ih by (simp add: del_items_append del_item_middle)
  qed
qed

lemma delwrongdata_eq_filter:
  "dataset \<noteq> [] \<Longrightarrow>
   delwrongdata dataset = Inr (filter (\<lambda>row. length row = length (dataset ! 0)) dataset)"
  using del_items_wrong [of "length (dataset ! 0)" "[]" dataset]
  by (simp add: delwrongdata_def py_index_def)

text \<open>
  Claim C2.  On a non-empty dataset \<open>delwrongdata\<close> returns the rows whose number of
  fields is that of the first row, in their original order: the result is the input
  filtered by that test, so every row with another length is absent from it.
\<close>

theorem delwrongdata_keeps_reference_length:
  assumes "dataset \<noteq> []"
  shows "delwrongdata dataset = Inr (filter (\<lambda>row. length row = length (dataset ! 0)) dataset)"
  using assms by (rule delwrongdata_eq_filter)

theorem delwrongdata_keeps_reference_length_witness:
  "[[[65], [49]], [[66]], [[67], [50]], []] \<noteq> ([] :: dataset)
   \<and> delwrongdata [[[65], [49]], [[66]], [[67], [50]], []] = Inr [[[65], [49]], [[67], [50]]]"
  using delwrongdata_keeps_reference_length [of "[[[65], [49]], [[66]], [[67], [50]], []]"]
  by simp

text \<open>
  Claim C6.  On the dataset with no rows \<open>delwrongdata\<close> returns no result: reading
  \<open>dataset[0]\<close> for the reference length raises IndexError, the exception that the
  specification calls EmptyDatasetError.
\<close>

theorem delwrongdata_empty_fails: "delwrongdata [] = Inl IndexError"
  by (simp add: delwrongdata_def py_index_def)

text \<open>
  Claim C9.  On a non-empty dataset, \<open>delwrongdata\<close> applied to its own result returns
  that result again.
\<close>

theorem delwrongdata_idempotent:
  assumes ne: "dataset \<noteq> []"
  shows "(case delwrongdata dataset of Inl e \<Rightarrow> Inl e | Inr d \<Rightarrow> delwrongdata d)
           = delwrongdata dataset"
proof -
  from ne obtain r rs where d: "dataset = r # rs" by (cases dataset) auto
  let ?d' = "filter (\<lambda>row. length row = length (dataset ! 0)) dataset"
  have 1: "delwrongdata dataset = Inr ?d'" using ne by (rule delwrongdata_eq_filter)
  have 2: "?d' \<noteq> []" "?d' ! 0 = dataset ! 0" using d by simp_all
  have "delwrongdata ?d' = Inr (filter (\<lambda>row. length row = length (?d' ! 0)) ?d')"
    using 2(1) by (rule delwrongdata_eq_filter)
  also have "\<dots> = Inr ?d'" unfolding 2(2) by simp
  finally show ?thesis using 1 by simp
qed

theorem delwrongdata_idempotent_witness:
  "[[[65], [49]], [[66]], [[67], [50]]] \<noteq> ([] :: dataset)
   \<and> delwrongdata [[[65], [49]], [[66]], [[67], [50]]] = Inr [[[65], [49]], [[67], [50]]]
   \<and> delwrongdata [[[65], [49]], [[67], [50]]] = Inr [[[65], [49]], [[67], [50]]]"
proof -
  have r: "delwrongdata [[[65], [49]], [[66]], [[67], [50]]] = Inr [[[65], [49]], [[67], [50]]]"
    using delwrongdata_eq_filter [of "[[[65], [49]], [[66]], [[67], [50]]]"] by simp
  show ?thesis
    using delwrongdata_idempotent [of "[[[65], [49]], [[66]], [[67], [50]]]"] r by simp
qed

section \<open>The duplicate resolver\<close>

lemma float_lt_rank:
  "x \<noteq> NaN \<Longrightarrow> y \<noteq> NaN \<Longrightarrow> float_lt x y = (float_rank x < float_rank y)"
  by (cases x; cases y) simp_all

lemma float_rank_inj: "float_rank x = float_rank y \<Longrightarrow> x = y"
  by (cases x; cases y) simp_all

lemma float_eq_rank:
  "x \<noteq> NaN \<Longrightarrow> y \<noteq> NaN \<Longrightarrow> float_eq x y = (float_rank x = float_rank y)"
  by (auto simp: float_eq_def dest: float_rank_inj)

lemma map_of_dict_set: "map_of (dict_set k v d) = (map_of d)(k \<mapsto> v)"
  by (induction d) (auto simp: fun_eq_iff)

lemma keys_dict_set:
  "dict_keys (dict_set k v d) = (if k \<in> set (dict_keys d) then dict_keys d else dict_keys d @ [k])"
  by (induction d) (fastforce simp: dict_keys_def)+

lemma distinct_dict_set: "distinct (dict_keys d) \<Longrightarrow> distinct (dict_keys (dict_set k v d))"
  by (simp add: keys_dict_set)

lemma createdicodup_loop_step:
  "3 < length app \<Longrightarrow> float (app ! 3) = Some v \<Longrightarrow>
   createdicodup_loop float (app # rest) rm
     = createdicodup_loop float rest (index_step rm (app ! 0) v)"
  by (cases app) (simp_all add: py_index_def index_step_def)

lemma dom_index_step: "dom (map_of (index_step rm name v)) = insert name (dom (map_of rm))"
  by (auto simp: index_step_def map_of_dict_set split: option.splits if_splits)

lemma createdicodup_loop_total:
  "\<forall>app\<in>set d. 3 < length app \<and> float (app ! 3) \<noteq> None \<Longrightarrow>
   \<exists>rm'. createdicodup_loop float d rm = Inr rm'
      \<and> dom (map_of rm') = dom (map_of rm) \<union> (\<lambda>app. app ! 0) ` set d"
proof (induction d arbitrary: rm)
  case Nil
  then show ?case by simp
next
  case (Cons app rest)
  from Cons.prems obtain v where v: "3 < length app" "float (app ! 3) = Some v" by auto
  from Cons.prems have "\<forall>app\<in>set rest. 3 < length app \<and> float (app ! 3) \<noteq> None" by simp
  from Cons.IH [OF this, of "index_step rm (app ! 0) v"]
  obtain rm' where rm': "createdicodup_loop float rest (index_step rm (app ! 0) v) = Inr rm'"
    "dom (map_of rm') = dom (map_of (index_step rm (app ! 0) v)) \<union> (\<lambda>app. app ! 0) ` set rest"
    by blast
  have step: "createdicodup_loop float (app # rest) rm
      = createdicodup_loop float rest (index_step rm (app ! 0) v)"
    using v by (rule createdicodup_loop_step)
  show ?case
    unfolding step using rm' by (auto simp: dom_index_step)
qed

lemma index_step_other: "k \<noteq> name \<Longrightarrow> map_of (index_step rm name v) k = map_of rm k"
  by (auto simp: index_step_def map_of_dict_set split: option.splits if_splits)

lemma index_step_not_nan:
  "v \<noteq> NaN \<Longrightarrow> \<forall>k c. map_of rm k = Some c \<longrightarrow> c \<noteq> NaN \<Longrightarrow>
   \<forall>k c. map_of (index_step rm name v) k = Some c \<longrightarrow> c \<noteq> NaN"
  by (auto simp: index_step_def map_of_dict_set split: option.splits if_splits)

lemma index_step_same:
  assumes "v \<noteq> NaN" "\<forall>k c. map_of rm k = Some c \<longrightarrow> c \<noteq> NaN"
  shows "\<exists>c. map_of (index_step rm name v) name = Some c \<and> float_rank v \<le> float_rank c
          \<and> (c = v \<or> map_of rm name = Some c)
          \<and> (\<forall>c0. map_of rm name = Some c0 \<longrightarrow> float_rank c0 \<le> float_rank c)"
proof (cases "map_of rm name")
  case None
  then show ?thesis by (simp add: index_step_def map_of_dict_set)
next
  case (Some c0)
  then have "c0 \<noteq> NaN" using assms(2) by blast
  then show ?thesis
    using Some assms(1) float_lt_rank [of c0 v]
    by (auto simp: index_step_def map_of_dict_set)
qed

lemma createdicodup_loop_max:
  assumes "\<forall>app\<in>set d. good_row float app"
    and "\<forall>k c. map_of rm k = Some c \<longrightarrow> c \<noteq> NaN"
    and "createdicodup_loop float d rm = Inr rm'"
    and "map_of rm' n = Some m"
  shows "m \<noteq> NaN
     \<and> (map_of rm n = Some m \<or> (\<exists>app\<in>set d. app ! 0 = n \<and> float (app ! 3) = Some m))
     \<and> (\<forall>c. map_of rm n = Some c \<longrightarrow> float_rank c \<le> float_rank m)
     \<and> is_max_of float m n d"
  using assms
proof (induction d arbitrary: rm)
  case Nil
  then show ?case by (auto simp: is_max_of_def)
next
  case (Cons app rest)
  from Cons.prems(1) obtain v where v: "3 < length app" "float (app ! 3) = Some v" "v \<noteq> NaN"
    by (auto simp: good_row_def)
  let ?rm1 = "index_step rm (app ! 0) v"
  have st1: "\<forall>k c. map_of ?rm1 k = Some c \<longrightarrow> c \<noteq> NaN"
    using v(3) Cons.prems(2) by (rule index_step_not_nan)
  have st2: "\<exists>c. map_of ?rm1 (app ! 0) = Some c \<and> float_rank v \<le> float_rank c
          \<and> (c = v \<or> map_of rm (app ! 0) = Some c)
          \<and> (\<forall>c0. map_of rm (app ! 0) = Some c0 \<longrightarrow> float_rank c0 \<le> float_rank c)"
    using v(3) Cons.prems(2) by (rule index_step_same)
  have run: "createdicodup_loop float rest ?rm1 = Inr rm'"
    using Cons.prems(3) createdicodup_loop_step [of app float v rest rm] v(1,2) by simp
  have rest: "\<forall>app\<in>set rest. good_row float app" using Cons.prems(1) by simp
  note ih = Cons.IH [OF rest st1 run Cons.prems(4)]
  show ?case
  proof (cases "app ! 0 = n")
    case False
    then have "map_of ?rm1 n = map_of rm n" by (simp add: index_step_other)
    with ih False show ?thesis by (auto simp: is_max_of_def)
  next
    case True
    from st2 True obtain c where c: "map_of ?rm1 n = Some c" "float_rank v \<le> float_rank c"
      "c = v \<or> map_of rm n = Some c"
      "\<forall>c0. map_of rm n = Some c0 \<longrightarrow> float_rank c0 \<le> float_rank c"
      by auto
    from ih c(1) have cm: "float_rank c \<le> float_rank m" by simp
    have a: "m \<noteq> NaN" using ih by simp
    have b: "map_of rm n = Some m \<or> (\<exists>a\<in>set (app # rest). a ! 0 = n \<and> float (a ! 3) = Some m)"
      using ih c(1,3) v(2) True by auto
    have d: "\<forall>c0. map_of rm n = Some c0 \<longrightarrow> float_rank c0 \<le> float_rank m"
      using c(4) cm by fastforce
    have e: "is_max_of float m n (app # rest)"
      using ih c(2) cm v(2) by (auto simp: is_max_of_def)
    show ?thesis using a b d e by blast
  qed
qed

lemma deldupdata_loop_step:
  assumes "3 < length app" "float (app ! 3) = Some v" "map_of rm (app ! 0) = Some stored"
  shows "deldupdata_loop float (app # rest) rm clean added =
     (if app ! 0 \<notin> set added \<and> float_eq stored v
      then deldupdata_loop float rest rm (clean @ [app]) (added @ [app ! 0])
      else deldupdata_loop float rest rm clean added)"
  using assms by (cases app) (simp_all add: py_index_def dict_get_def)

lemma deldupdata_loop_char:
  assumes "\<forall>app\<in>set d. 3 < length app \<and> float (app ! 3) \<noteq> None \<and> map_of rm (app ! 0) \<noteq> None"
  shows "\<exists>kept. deldupdata_loop float d rm clean added = Inr (clean @ kept)
      \<and> set kept \<subseteq> set d
      \<and> (\<forall>n. filter (\<lambda>a. a ! 0 = n) kept =
            (if n \<in> set added then []
             else case find (row_matches float rm n) d of None \<Rightarrow> [] | Some a \<Rightarrow> [a]))"
  using assms
proof (induction d arbitrary: clean added)
  case Nil
  then show ?case by simp
next
  case (Cons app rest)
  from Cons.prems obtain v stored where
    v: "3 < length app" "float (app ! 3) = Some v" "map_of rm (app ! 0) = Some stored"
    by auto
  have rest: "\<forall>app\<in>set rest. 3 < length app \<and> float (app ! 3) \<noteq> None \<and> map_of rm (app ! 0) \<noteq> None"
    using Cons.prems by simp
  have step: "deldupdata_loop float (app # rest) rm clean added =
     (if app ! 0 \<notin> set added \<and> float_eq stored v
      then deldupdata_loop float rest rm (clean @ [app]) (added @ [app ! 0])
      else deldupdata_loop float rest rm clean added)"
    using v by (rule deldupdata_loop_step)
  have match: "row_matches float rm n app = (app ! 0 = n \<and> float_eq stored v)" for n
    using v by (auto simp: row_matches_def)
  show ?case
  proof (cases "app ! 0 \<notin> set added \<and> float_eq stored v")
    case True
    from Cons.IH [OF rest, of "clean @ [app]" "added @ [app ! 0]"]
    obtain kept where k: "deldupdata_loop float rest rm (clean @ [app]) (added @ [app ! 0])
         = Inr ((clean @ [app]) @ kept)" "set kept \<subseteq> set rest"
      "\<forall>n. filter (\<lambda>a. a ! 0 = n) kept =
            (if n \<in> set (added @ [app ! 0]) then []
             else case find (row_matches float rm n) rest of None \<Rightarrow> [] | Some a \<Rightarrow> [a])"
      by blast
    have "\<forall>n. filter (\<lambda>a. a ! 0 = n) (app # kept) =
            (if n \<in> set added then []
             else case find (row_matches float rm n) (app # rest) of None \<Rightarrow> [] | Some a \<Rightarrow> [a])"
      using k(3) True by (auto simp: match)
    then show ?thesis
      unfolding step using True k(1,2) by (intro exI [of _ "app # kept"]) auto
  next
    case False
    from Cons.IH [OF rest, of clean added]
    obtain kept where k: "deldupdata_loop float rest rm clean added = Inr (clean @ kept)"
      "set kept \<subseteq> set rest"
      "\<forall>n. filter (\<lambda>a. a ! 0 = n) kept =
            (if n \<in> set added then []
             else case find (row_matches float rm n) rest of None \<Rightarrow> [] | Some a \<Rightarrow> [a])"
      by blast
    have "\<forall>n. filter (\<lambda>a. a ! 0 = n) kept =
            (if n \<in> set added then []
             else case find (row_matches float rm n) (app # rest) of None \<Rightarrow> [] | Some a \<Rightarrow> [a])"
      using k(3) False by (auto simp: match)
    then show ?thesis
      unfolding step using False k(1,2) by (intro exI [of _ kept]) auto
  qed
qed

lemma find_first_split:
  "P x \<Longrightarrow> \<forall>a\<in>set xs. \<not> P a \<Longrightarrow> find P (xs @ x # ys) = Some x"
  by (induction xs) auto

lemma good_rows_parse:
  "\<forall>app\<in>set d. good_row float app \<Longrightarrow> \<forall>app\<in>set d. 3 < length app \<and> float (app ! 3) \<noteq> None"
  by (auto simp: good_row_def)

lemma createdicodup_keys:
  assumes "\<forall>app\<in>set dataset. 3 < length app \<and> float (app ! 3) \<noteq> None"
  shows "\<exists>rm. createdicodup float dataset = Inr rm
            \<and> set (dict_keys rm) = (\<lambda>app. app ! 0) ` set dataset"
  using createdicodup_loop_total [OF assms, of "[]"]
  by (auto simp: createdicodup_def dict_keys_def dom_map_of_conv_image_fst)

text \<open>
  Claim C1.  Let every row of the dataset have a field 3 that \<open>float\<close> parses to a
  number, that is, to a float other than NaN.  Then \<open>createdicodup\<close> returns a
  dictionary and \<open>deldupdata\<close>, given the dataset and that dictionary, returns rows
  of the dataset such that for every name in column 0 of the dataset exactly one of them
  has that name.  That row \<open>app\<close> splits the dataset into the rows before it and the rows
  after it; its review count \<open>m\<close> is the maximum over the rows of the name, and it is
  the first row that reaches it: each row of the name before it has a smaller review count,
  and no row of the name after it has a larger one.
\<close>

theorem deldupdata_keeps_first_max:
  assumes good: "\<forall>app\<in>set dataset. 3 < length app \<and> (\<exists>v. float (app ! 3) = Some v \<and> v \<noteq> NaN)"
  shows "\<exists>reviews_max android_clean.
      createdicodup float dataset = Inr reviews_max
    \<and> deldupdata float dataset reviews_max = Inr android_clean
    \<and> set android_clean \<subseteq> set dataset
    \<and> (\<forall>name\<in>set (map (\<lambda>app. app ! 0) dataset).
          \<exists>before app after m.
            dataset = before @ app # after
          \<and> filter (\<lambda>a. a ! 0 = name) android_clean = [app]
          \<and> app ! 0 = name \<and> float (app ! 3) = Some m
          \<and> (\<forall>a\<in>set before. a ! 0 = name \<longrightarrow> (\<exists>v. float (a ! 3) = Some v \<and> float_lt v m))
          \<and> (\<forall>a\<in>set after. a ! 0 = name \<longrightarrow> (\<exists>v. float (a ! 3) = Some v \<and> \<not> float_lt m v)))"
proof -
  have g: "\<forall>app\<in>set dataset. good_row float app" using good by (simp add: good_row_def)
  from createdicodup_loop_total [OF good_rows_parse [OF g], of "[]"]
  obtain rm where rm: "createdicodup float dataset = Inr rm"
    "dom (map_of rm) = (\<lambda>app. app ! 0) ` set dataset"
    by (auto simp: createdicodup_def)
  have run: "createdicodup_loop float dataset [] = Inr rm" using rm(1) by (simp add: createdicodup_def)
  have mx: "m \<noteq> NaN \<and> (\<exists>app\<in>set dataset. app ! 0 = n \<and> float (app ! 3) = Some m)
      \<and> is_max_of float m n dataset" if "map_of rm n = Some m" for n m
    using createdicodup_loop_max [OF g _ run that] by simp
  have pre: "\<forall>app\<in>set dataset. 3 < length app \<and> float (app ! 3) \<noteq> None \<and> map_of rm (app ! 0) \<noteq> None"
    using good_rows_parse [OF g] rm(2) by (auto simp: dom_def)
  from deldupdata_loop_char [OF pre, of "[]" "[]"]
  obtain clean where clean: "deldupdata float dataset rm = Inr clean" "set clean \<subseteq> set dataset"
    "\<forall>n. filter (\<lambda>a. a ! 0 = n) clean =
       (case find (row_matches float rm n) dataset of None \<Rightarrow> [] | Some a \<Rightarrow> [a])"
    by (auto simp: deldupdata_def)
  have each: "\<exists>before app after m.
            dataset = before @ app # after
          \<and> filter (\<lambda>a. a ! 0 = name) clean = [app]
          \<and> app ! 0 = name \<and> float (app ! 3) = Some m
          \<and> (\<forall>a\<in>set before. a ! 0 = name \<longrightarrow> (\<exists>v. float (a ! 3) = Some v \<and> float_lt v m))
          \<and> (\<forall>a\<in>set after. a ! 0 = name \<longrightarrow> (\<exists>v. float (a ! 3) = Some v \<and> \<not> float_lt m v))"
    if "name \<in> set (map (\<lambda>app. app ! 0) dataset)" for name
  proof -
    from that rm(2) obtain m where m: "map_of rm name = Some m" by (auto simp: dom_def)
    from mx [OF m] obtain a0 where a0: "m \<noteq> NaN" "a0 \<in> set dataset" "a0 ! 0 = name"
      "float (a0 ! 3) = Some m" and ismax: "is_max_of float m name dataset"
      by blast
    have "row_matches float rm name a0"
      using a0 m by (auto simp: row_matches_def float_eq_def)
    with a0(2) have "\<exists>a\<in>set dataset. row_matches float rm name a" by blast
    from split_list_first_prop [OF this]
    obtain before app after where sp: "dataset = before @ app # after"
      "row_matches float rm name app" "\<forall>a\<in>set before. \<not> row_matches float rm name a"
      by blast
    have fnd: "find (row_matches float rm name) dataset = Some app"
      unfolding sp(1) using sp(2,3) by (rule find_first_split)
    have app: "app ! 0 = name" "float (app ! 3) = Some m"
      using sp(2) m by (auto simp: row_matches_def float_eq_def)
    have val: "\<exists>v. float (a ! 3) = Some v \<and> v \<noteq> NaN \<and> float_rank v \<le> float_rank m"
      if "a \<in> set dataset" "a ! 0 = name" for a
      using that g ismax by (auto simp: good_row_def is_max_of_def)
    have bef: "\<exists>v. float (a ! 3) = Some v \<and> float_lt v m" if "a \<in> set before" "a ! 0 = name" for a
    proof -
      from that sp(1) val [of a] obtain v where v: "float (a ! 3) = Some v" "v \<noteq> NaN"
        "float_rank v \<le> float_rank m" by auto
      have "\<not> row_matches float rm name a" using sp(3) that(1) by blast
      then have "\<not> float_eq m v" using v(1) m that(2) by (auto simp: row_matches_def)
      then have "float_rank v \<noteq> float_rank m" using float_eq_rank [OF a0(1) v(2)] by auto
      then show ?thesis using v float_lt_rank [OF v(2) a0(1)] by auto
    qed
    have aft: "\<exists>v. float (a ! 3) = Some v \<and> \<not> float_lt m v" if "a \<in> set after" "a ! 0 = name" for a
    proof -
      from that sp(1) val [of a] obtain v where v: "float (a ! 3) = Some v" "v \<noteq> NaN"
        "float_rank v \<le> float_rank m" by auto
      then show ?thesis using float_lt_rank [OF a0(1) v(2)] by auto
    qed
    have flt: "filter (\<lambda>a. a ! 0 = name) clean = [app]"
      using clean(3) fnd by simp
    show ?thesis
      apply (rule exI [of _ before], rule exI [of _ app], rule exI [of _ after], rule exI [of _ m])
      using sp(1) flt app bef aft by blast
  qed
  show ?thesis
    apply (rule exI [of _ rm], rule exI [of _ clean])
    using rm(1) clean(1,2) each by (intro conjI ballI) assumption+
qed

theorem deldupdata_keeps_first_max_witness:
  "list_all (\<lambda>app. 3 < length app \<and> (\<exists>v. float_of_digits (app ! 3) = Some v \<and> v \<noteq> NaN))
     [[[65], [], [], [53]], [[65], [], [], [57]], [[66], [], [], [57]]]
   \<and> (\<exists>reviews_max android_clean.
      createdicodup float_of_digits [[[65], [], [], [53]], [[65], [], [], [57]], [[66], [], [], [57]]] = Inr reviews_max
    \<and> deldupdata float_of_digits [[[65], [], [], [53]], [[65], [], [], [57]], [[66], [], [], [57]]] reviews_max = Inr android_clean
    \<and> set android_clean \<subseteq> set [[[65], [], [], [53]], [[65], [], [], [57]], [[66], [], [], [57]]]
    \<and> (\<forall>name\<in>set (map (\<lambda>app. app ! 0) [[[65], [], [], [53]], [[65], [], [], [57]], [[66], [], [], [57]]]).
          \<exists>before app after m.
            [[[65], [], [], [53]], [[65], [], [], [57]], [[66], [], [], [57]]] = before @ app # after
          \<and> filter (\<lambda>a. a ! 0 = name) android_clean = [app]
          \<and> app ! 0 = name \<and> float_of_digits (app ! 3) = Some m
          \<and> (\<forall>a\<in>set before. a ! 0 = name \<longrightarrow>
                (\<exists>v. float_of_digits (a ! 3) = Some v \<and> float_lt v m))
          \<and> (\<forall>a\<in>set after. a ! 0 = name \<longrightarrow>
                (\<exists>v. float_of_digits (a ! 3) = Some v \<and> \<not> float_lt m v))))"
proof -
  have h: "\<forall>app\<in>set [[[65], [], [], [53]], [[65], [], [], [57]], [[66], [], [], [57]]].
      3 < length app \<and> (\<exists>v. float_of_digits (app ! 3) = Some v \<and> v \<noteq> NaN)"
    by (simp add: float_of_digits_def digits_value_def)
  show ?thesis
  proof (rule conjI)
    show "list_all (\<lambda>app. 3 < length app \<and> (\<exists>v. float_of_digits (app ! 3) = Some v \<and> v \<noteq> NaN))
       [[[65], [], [], [53]], [[65], [], [], [57]], [[66], [], [], [57]]]"
      using h by (simp only: list_all_iff)
  next
    show "\<exists>reviews_max android_clean.
      createdicodup float_of_digits [[[65], [], [], [53]], [[65], [], [], [57]], [[66], [], [], [57]]] = Inr reviews_max
    \<and> deldupdata float_of_digits [[[65], [], [], [53]], [[65], [], [], [57]], [[66], [], [], [57]]] reviews_max = Inr android_clean
    \<and> set android_clean \<subseteq> set [[[65], [], [], [53]], [[65], [], [], [57]], [[66], [], [], [57]]]
    \<and> (\<forall>name\<in>set (map (\<lambda>app. app ! 0) [[[65], [], [], [53]], [[65], [], [], [57]], [[66], [], [], [57]]]).
          \<exists>before app after m.
            [[[65], [], [], [53]], [[65], [], [], [57]], [[66], [], [], [57]]] = before @ app # after
          \<and> filter (\<lambda>a. a ! 0 = name) android_clean = [app]
          \<and> app ! 0 = name \<and> float_of_digits (app ! 3) = Some m
          \<and> (\<forall>a\<in>set before. a ! 0 = name \<longrightarrow>
                (\<exists>v. float_of_digits (a ! 3) = Some v \<and> float_lt v m))
          \<and> (\<forall>a\<in>set after. a ! 0 = name \<longrightarrow>
                (\<exists>v. float_of_digits (a ! 3) = Some v \<and> \<not> float_lt m v)))"
      using h by (rule deldupdata_keeps_first_max)
  qed
qed

text \<open>
  The hypothesis is about numbers: \<open>==\<close> is false on NaN, so a row whose review count
  parses to NaN never equals the stored maximum of its name and is dropped.
\<close>

lemma deldupdata_nan_row_dropped:
  assumes "float s = Some NaN"
  shows "createdicodup float [[n, a, b, s]] = Inr [(n, NaN)]
       \<and> deldupdata float [[n, a, b, s]] [(n, NaN)] = Inr []"
  using assms
  by (simp add: createdicodup_def deldupdata_def py_index_def dict_get_def float_eq_def)

text \<open>
  Claim C10.  Let every row of the dataset have a field 3 that \<open>float\<close> parses.  Then
  \<open>createdicodup\<close> returns a dictionary, the name of every row of the dataset is one of
  its keys, and \<open>deldupdata\<close> on the dataset and that dictionary returns a dataset: no
  lookup \<open>reviews_max[name]\<close> raises KeyError.
\<close>

theorem deldupdata_lookup_defined:
  assumes "\<forall>app\<in>set dataset. 3 < length app \<and> float (app ! 3) \<noteq> None"
  shows "\<exists>reviews_max android_clean.
      createdicodup float dataset = Inr reviews_max
    \<and> (\<forall>app\<in>set dataset. app ! 0 \<in> set (dict_keys reviews_max))
    \<and> deldupdata float dataset reviews_max = Inr android_clean"
proof -
  from createdicodup_keys [OF assms]
  obtain rm where rm: "createdicodup float dataset = Inr rm"
    "set (dict_keys rm) = (\<lambda>app. app ! 0) ` set dataset"
    by blast
  have keys: "\<forall>app\<in>set dataset. app ! 0 \<in> set (dict_keys rm)"
    using rm(2) by simp
  have "\<forall>app\<in>set dataset. 3 < length app \<and> float (app ! 3) \<noteq> None \<and> map_of rm (app ! 0) \<noteq> None"
    using assms keys by (auto simp: dict_keys_def map_of_eq_None_iff)
  from deldupdata_loop_char [OF this, of "[]" "[]"]
  obtain clean where "deldupdata float dataset rm = Inr clean"
    by (auto simp: deldupdata_def)
  with rm(1) keys show ?thesis by blast
qed

theorem deldupdata_lookup_defined_witness:
  "list_all (\<lambda>app. 3 < length app \<and> float_of_digits (app ! 3) \<noteq> None) [[[65], [], [], [53]], [[65], [], [], [57]], [[66], [], [], [57]]]
   \<and> (\<exists>reviews_max android_clean.
      createdicodup float_of_digits [[[65], [], [], [53]], [[65], [], [], [57]], [[66], [], [], [57]]] = Inr reviews_max
    \<and> (\<forall>app\<in>set [[[65], [], [], [53]], [[65], [], [], [57]], [[66], [], [], [57]]]. app ! 0 \<in> set (dict_keys reviews_max))
    \<and> deldupdata float_of_digits [[[65], [], [], [53]], [[65], [], [], [57]], [[66], [], [], [57]]] reviews_max = Inr android_clean)"
proof -
  have h: "\<forall>app\<in>set [[[65], [], [], [53]], [[65], [], [], [57]], [[66], [], [], [57]]]. 3 < length app \<and> float_of_digits (app ! 3) \<noteq> None"
    by (simp add: float_of_digits_def digits_value_def)
  show ?thesis
  proof (rule conjI)
    show "list_all (\<lambda>app. 3 < length app \<and> float_of_digits (app ! 3) \<noteq> None) [[[65], [], [], [53]], [[65], [], [], [57]], [[66], [], [], [57]]]"
      using h by (simp only: list_all_iff)
  next
    show "\<exists>reviews_max android_clean.
      createdicodup float_of_digits [[[65], [], [], [53]], [[65], [], [], [57]], [[66], [], [], [57]]] = Inr reviews_max
    \<and> (\<forall>app\<in>set [[[65], [], [], [53]], [[65], [], [], [57]], [[66], [], [], [57]]]. app ! 0 \<in> set (dict_keys reviews_max))
    \<and> deldupdata float_of_digits [[[65], [], [], [53]], [[65], [], [], [57]], [[66], [], [], [57]]] reviews_max = Inr android_clean"
      using h by (rule deldupdata_lookup_defined)
  qed
qed

section \<open>The price filter\<close>

lemma english_rows_eq_filter:
  "\<forall>app\<in>set d. col < length app \<Longrightarrow>
   english_rows col d acc = Inr (acc @ filter (\<lambda>app. is_english (app ! col)) d)"
  by (induction d arbitrary: acc) (simp_all add: py_index_def)

lemma android_free_rows_eq_filter:
  "\<forall>app\<in>set d. 7 < length app \<Longrightarrow>
   android_free_rows d acc = Inr (acc @ filter (\<lambda>app. app ! 7 = [48]) d)"
  by (induction d arbitrary: acc) (simp_all add: py_index_def)

lemma apple_free_rows_eq_filter:
  "\<forall>app\<in>set d. 4 < length app \<Longrightarrow>
   apple_free_rows d acc = Inr (acc @ filter (\<lambda>app. app ! 4 = [48, 46, 48] \<or> app ! 4 = [48]) d)"
  by (induction d arbitrary: acc) (simp_all add: py_index_def)

text \<open>
  Claim C4.  Let every Google Play row have a field 7 and every App Store row a field 4.
  Then \<open>filter_english_and_free\<close> returns, of the rows that passed the language
  filter, the Google Play rows whose field 7 is the string "0" and the App Store rows whose
  field 4 is the string "0.0" or the string "0", and no other row: the test is equality of
  strings.  The string "0.00" is neither of the accepted strings, so a row with that price
  is not kept.
\<close>

theorem filter_free_literal_price:
  assumes g: "\<forall>app\<in>set google_data. 7 < length app"
    and a: "\<forall>app\<in>set apple_data. 4 < length app"
  shows "filter_english_and_free google_data apple_data =
           Inr (filter (\<lambda>app. app ! 7 = [48])
                  (filter (\<lambda>app. is_english (app ! 0)) google_data),
                filter (\<lambda>app. app ! 4 = [48, 46, 48] \<or> app ! 4 = [48])
                  (filter (\<lambda>app. is_english (app ! 1)) apple_data))
       \<and> [48, 46, 48, 48] \<notin> {[48, 46, 48], [48 :: nat]}"
proof -
  have g0: "\<forall>app\<in>set google_data. 0 < length app" using g by auto
  have a1: "\<forall>app\<in>set apple_data. 1 < length app" using a by auto
  have g7: "\<forall>app\<in>set (filter (\<lambda>app. is_english (app ! 0)) google_data). 7 < length app"
    using g by simp
  have a4: "\<forall>app\<in>set (filter (\<lambda>app. is_english (app ! 1)) apple_data). 4 < length app"
    using a by simp
  have e1: "english_rows 0 google_data [] = Inr (filter (\<lambda>app. is_english (app ! 0)) google_data)"
    using english_rows_eq_filter [OF g0, of "[]"] by simp
  have e2: "english_rows 1 apple_data [] = Inr (filter (\<lambda>app. is_english (app ! 1)) apple_data)"
    using english_rows_eq_filter [OF a1, of "[]"] by simp
  have f1: "android_free_rows (filter (\<lambda>app. is_english (app ! 0)) google_data) []
      = Inr (filter (\<lambda>app. app ! 7 = [48]) (filter (\<lambda>app. is_english (app ! 0)) google_data))"
    using android_free_rows_eq_filter [OF g7, of "[]"] by simp
  have f2: "apple_free_rows (filter (\<lambda>app. is_english (app ! 1)) apple_data) []
      = Inr (filter (\<lambda>app. app ! 4 = [48, 46, 48] \<or> app ! 4 = [48])
               (filter (\<lambda>app. is_english (app ! 1)) apple_data))"
    using apple_free_rows_eq_filter [OF a4, of "[]"] by simp
  show ?thesis
    by (simp only: filter_english_and_free_def e1 e2 f1 f2 sum.case) simp
qed

theorem filter_free_literal_price_witness:
  "list_all (\<lambda>app. 7 < length app) example_google
   \<and> list_all (\<lambda>app. 4 < length app) example_apple
   \<and> filter_english_and_free example_google example_apple =
       Inr ([[[65], [71], [], [53], [], [49, 48, 44, 48, 48, 48, 43], [], [48]],
             [[65], [71], [], [57], [], [50, 48, 44, 48, 48, 48, 43], [], [48]]],
            [[[], [65], [], [], [48, 46, 48], [49, 48, 48], [], [], [], [], [], [88]],
             [[], [67], [], [], [48], [55], [], [], [], [], [], [89]]])"
proof -
  have g: "\<forall>app\<in>set example_google. 7 < length app" by (simp add: example_google_def)
  have a: "\<forall>app\<in>set example_apple. 4 < length app" by (simp add: example_apple_def)
  have r: "filter_english_and_free example_google example_apple =
       Inr ([[[65], [71], [], [53], [], [49, 48, 44, 48, 48, 48, 43], [], [48]],
             [[65], [71], [], [57], [], [50, 48, 44, 48, 48, 48, 43], [], [48]]],
            [[[], [65], [], [], [48, 46, 48], [49, 48, 48], [], [], [], [], [], [88]],
             [[], [67], [], [], [48], [55], [], [], [], [], [], [89]]])"
    using filter_free_literal_price [OF g a] by (simp add: example_google_def example_apple_def is_english_def)
  show ?thesis using g a r by (simp only: list_all_iff)
qed

section \<open>The frequency table and its display\<close>

lemma dict_set_new: "k \<notin> set (dict_keys d) \<Longrightarrow> dict_set k v d = d @ [(k, v)]"
  by (induction d) (auto simp: dict_keys_def)

lemma count_step_props:
  assumes "table_ok table"
  shows "table_ok (count_step table g)"
    and "count_in (count_step table g) k = count_in table k + (if k = g then 1 else 0)"
    and "set (dict_keys (count_step table g)) = insert g (set (dict_keys table))"
  using assms
  by (auto simp: table_ok_def count_step_def count_in_def map_of_dict_set keys_dict_set
      split: option.splits if_splits)

lemma freq_count_step:
  "py_index_int row index = Inr g \<Longrightarrow>
   freq_count index (row # rows) table total' = freq_count index rows (count_step table g) (total' + 1)"
  by (simp add: count_step_def)

lemma freq_count_char:
  assumes "\<forall>row\<in>set d. \<exists>g. py_index_int row index = Inr g" "table_ok table"
  shows "\<exists>table'. freq_count index d table total' = Inr (table', total' + length d)
      \<and> table_ok table'
      \<and> (\<forall>k. count_in table' k = count_in table k + field_count d index k)
      \<and> set (dict_keys table') = set (dict_keys table) \<union> {g. \<exists>row\<in>set d. py_index_int row index = Inr g}"
  using assms
proof (induction d arbitrary: table total')
  case Nil
  then show ?case by (simp add: field_count_def)
next
  case (Cons row rows)
  from Cons.prems(1) obtain g where g: "py_index_int row index = Inr g" by auto
  have rows: "\<forall>row\<in>set rows. \<exists>g. py_index_int row index = Inr g" using Cons.prems(1) by simp
  note st = count_step_props [OF Cons.prems(2), of g]
  from Cons.IH [OF rows st(1), of "total' + 1"]
  obtain table' where t: "freq_count index rows (count_step table g) (total' + 1)
        = Inr (table', total' + 1 + length rows)" "table_ok table'"
    "\<forall>k. count_in table' k = count_in (count_step table g) k + field_count rows index k"
    "set (dict_keys table') = set (dict_keys (count_step table g))
        \<union> {g. \<exists>row\<in>set rows. py_index_int row index = Inr g}"
    by blast
  have c: "\<forall>k. count_in table' k = count_in table k + field_count (row # rows) index k"
    using t(3) st(2) g by (auto simp: field_count_def)
  have k: "set (dict_keys table') = set (dict_keys table)
        \<union> {g. \<exists>row\<in>set (row # rows). py_index_int row index = Inr g}"
    using t(4) st(3) g by auto
  show ?case
    unfolding freq_count_step [OF g] using t(1,2) c k by (intro exI [of _ table']) simp
qed

lemma freq_percentages_char:
  assumes "keys = [] \<or> 0 < total'" "\<forall>k\<in>set keys. map_of table k \<noteq> None"
    "distinct keys" "set keys \<inter> set (dict_keys tp) = {}"
  shows "freq_percentages fa table total' keys tp
       = Inr (tp @ map (\<lambda>k. (k, fpercent fa (count_in table k) total')) keys)"
  using assms
proof (induction keys arbitrary: tp)
  case Nil
  then show ?case by simp
next
  case (Cons key keys)
  from Cons.prems obtain c where c: "map_of table key = Some c" by auto
  have pos: "0 < total'" using Cons.prems(1) by simp
  have new: "key \<notin> set (dict_keys tp)" using Cons.prems(4) by auto
  let ?tp1 = "tp @ [(key, fpercent fa c total')]"
  have "freq_percentages fa table total' keys ?tp1
       = Inr (?tp1 @ map (\<lambda>k. (k, fpercent fa (count_in table k) total')) keys)"
    using Cons.prems pos by (intro Cons.IH) (auto simp: dict_keys_def)
  then show ?case
    using c pos by (simp add: dict_get_def dict_set_new [OF new] count_in_def)
qed

lemma freq_table_char:
  assumes "\<forall>row\<in>set d. \<exists>g. py_index_int row index = Inr g"
  shows "\<exists>keys. freq_table fa d index
           = Inr (map (\<lambda>k. (k, fpercent fa (field_count d index k) (length d))) keys)
      \<and> distinct keys
      \<and> set keys = {g. \<exists>row\<in>set d. py_index_int row index = Inr g}"
proof -
  have ok: "table_ok []" by (simp add: table_ok_def dict_keys_def)
  from freq_count_char [OF assms ok, of 0]
  obtain table where t: "freq_count index d [] 0 = Inr (table, length d)" "table_ok table"
    "\<forall>k. count_in table k = field_count d index k"
    "set (dict_keys table) = {g. \<exists>row\<in>set d. py_index_int row index = Inr g}"
    by (auto simp: count_in_def dict_keys_def)
  have ne: "dict_keys table = [] \<or> 0 < length d" using t(4) by (cases d) auto
  have dom: "\<forall>k\<in>set (dict_keys table). map_of table k \<noteq> None"
    by (auto simp: dict_keys_def map_of_eq_None_iff)
  have "freq_percentages fa table (length d) (dict_keys table) []
       = Inr ([] @ map (\<lambda>k. (k, fpercent fa (count_in table k) (length d))) (dict_keys table))"
    using ne dom t(2) by (intro freq_percentages_char) (auto simp: table_ok_def dict_keys_def)
  then show ?thesis
    using t by (intro exI [of _ "dict_keys table"]) (simp add: freq_table_def table_ok_def)
qed

lemma sorted_reverse_props:
  fixes xs :: "('a :: linorder) list"
  assumes "distinct xs"
  shows "set (sorted_reverse xs) = set xs" and "distinct (sorted_reverse xs)"
    and "sorted_wrt (\<lambda>x y. y < x) (sorted_reverse xs)"
proof -
  show "set (sorted_reverse xs) = set xs" by (simp add: sorted_reverse_def)
  show "distinct (sorted_reverse xs)" using assms by (simp add: sorted_reverse_def)
  have "sorted_wrt (<) (sort (rev xs))"
    using assms by (simp add: strict_sorted_iff)
  then show "sorted_wrt (\<lambda>x y. y < x) (sorted_reverse xs)"
    by (simp add: sorted_reverse_def sorted_wrt_rev)
qed

lemma field_count_le: "field_count d index k \<le> length d"
  by (simp add: field_count_def)

lemma field_count_pos:
  "row \<in> set d \<Longrightarrow> py_index_int row index = Inr k \<Longrightarrow> 0 < field_count d index k"
  by (auto simp: field_count_def filter_empty_conv)

text \<open>
  Claim C8.  Let every row of the dataset have a field at \<open>index\<close>.  Then
  \<open>display_table\<close> prints one line for each distinct value of that field, with the
  percentage that \<open>freq_table\<close> computes from the number of rows with that value.  The
  lines are in descending order of the percentage, and lines with the same percentage in
  descending order of the key; so lines of keys with equal counts are in descending order
  of the key.  Where the percentage grows with the count (\<open>count_increasing\<close>), the
  lines are in descending order of the count, and in descending order of the key among
  equal counts.
\<close>

theorem display_table_sorted:
  assumes rows: "\<forall>row\<in>set dataset. \<exists>genre. py_index_int row index = Inr genre"
  shows "\<exists>shown. display_table fa dataset index = Inr shown
    \<and> distinct (map fst shown)
    \<and> set (map fst shown) = {genre. \<exists>row\<in>set dataset. py_index_int row index = Inr genre}
    \<and> (\<forall>(key, val)\<in>set shown.
          val = fpercent fa (field_count dataset index key) (length dataset))
    \<and> sorted_wrt (\<lambda>(key1, val1) (key2, val2). val2 < val1 \<or> (val2 = val1 \<and> key2 < key1)) shown
    \<and> sorted_wrt (\<lambda>(key1, val1) (key2, val2).
          field_count dataset index key1 = field_count dataset index key2 \<longrightarrow> key2 < key1) shown
    \<and> (count_increasing fa (length dataset) \<longrightarrow>
        sorted_wrt (\<lambda>(key1, val1) (key2, val2).
          field_count dataset index key2 < field_count dataset index key1
          \<or> (field_count dataset index key2 = field_count dataset index key1 \<and> key2 < key1)) shown)"
proof -
  let ?n = "length dataset"
  let ?pc = "\<lambda>k. fpercent fa (field_count dataset index k) ?n"
  from freq_table_char [OF rows, of fa]
  obtain keys where k: "freq_table fa dataset index = Inr (map (\<lambda>k. (k, ?pc k)) keys)"
    "distinct keys" "set keys = {g. \<exists>row\<in>set dataset. py_index_int row index = Inr g}"
    by blast
  let ?L = "map (\<lambda>(key, val). (val, key)) (map (\<lambda>k. (k, ?pc k)) keys)"
  let ?S = "sorted_reverse ?L"
  let ?shown = "map (\<lambda>entry. (snd entry, fst entry)) ?S"
  have L: "?L = map (\<lambda>k. (?pc k, k)) keys" by simp
  have dL: "distinct ?L" unfolding L using k(2) by (simp add: distinct_map inj_on_def)
  note sp = sorted_reverse_props [OF dL]
  have run: "display_table fa dataset index = Inr ?shown"
    by (simp only: display_table_def k(1) sum.case)
  have setS: "set ?S = (\<lambda>k. (?pc k, k)) ` set keys" using sp(1) unfolding L by simp
  have keys_shown: "map fst ?shown = map snd ?S" by simp
  have d: "distinct (map fst ?shown)"
  proof -
    have "inj_on snd (set ?S)" unfolding setS by (auto simp: inj_on_def)
    then show ?thesis unfolding keys_shown using sp(2) by (simp add: distinct_map)
  qed
  have s: "set (map fst ?shown) = {g. \<exists>row\<in>set dataset. py_index_int row index = Inr g}"
    unfolding keys_shown using setS k(3) by (simp add: image_image)
  have mem: "val = ?pc key \<and> key \<in> set keys" if "(key, val) \<in> set ?shown" for key val
    using that setS by auto
  have v: "\<forall>(key, val)\<in>set ?shown. val = ?pc key" using mem by blast
  have o1: "sorted_wrt (\<lambda>(key1, val1) (key2, val2). val2 < val1 \<or> (val2 = val1 \<and> key2 < key1)) ?shown"
  proof -
    have "sorted_wrt (\<lambda>x y. fst y < fst x \<or> (fst y = fst x \<and> snd y < snd x)) ?S"
      using sp(3) by (rule sorted_wrt_mono_rel [rotated]) (auto simp: less_prod_def)
    then show ?thesis by (simp add: sorted_wrt_map case_prod_beta)
  qed
  have o2: "sorted_wrt (\<lambda>(key1, val1) (key2, val2).
          field_count dataset index key1 = field_count dataset index key2 \<longrightarrow> key2 < key1) ?shown"
    using o1
  proof (rule sorted_wrt_mono_rel [rotated])
    fix x y assume "x \<in> set ?shown" "y \<in> set ?shown"
      and "(case x of (key1, val1) \<Rightarrow> \<lambda>(key2, val2). val2 < val1 \<or> (val2 = val1 \<and> key2 < key1)) y"
    then show "(case x of (key1, val1) \<Rightarrow> \<lambda>(key2, val2).
          field_count dataset index key1 = field_count dataset index key2 \<longrightarrow> key2 < key1) y"
      using mem [of "fst x" "snd x"] mem [of "fst y" "snd y"] by (auto simp: case_prod_beta)
  qed
  have o3: "sorted_wrt (\<lambda>(key1, val1) (key2, val2).
          field_count dataset index key2 < field_count dataset index key1
          \<or> (field_count dataset index key2 = field_count dataset index key1 \<and> key2 < key1)) ?shown"
    if inc: "count_increasing fa ?n"
    using o1
  proof (rule sorted_wrt_mono_rel [rotated])
    fix x y assume xy: "x \<in> set ?shown" "y \<in> set ?shown"
      and lt: "(case x of (key1, val1) \<Rightarrow> \<lambda>(key2, val2). val2 < val1 \<or> (val2 = val1 \<and> key2 < key1)) y"
    let ?cx = "field_count dataset index (fst x)" and ?cy = "field_count dataset index (fst y)"
    from xy mem [of "fst x" "snd x"] mem [of "fst y" "snd y"]
    have vx: "snd x = fpercent fa ?cx ?n" "fst x \<in> set keys"
      and vy: "snd y = fpercent fa ?cy ?n" "fst y \<in> set keys" by auto
    have px: "0 < ?cx" using vx(2) k(3) field_count_pos by auto
    have py: "0 < ?cy" using vy(2) k(3) field_count_pos by auto
    have up: "fpercent fa c ?n < fpercent fa c' ?n" if "0 < c" "c < c'" "c' \<le> ?n" for c c'
      using inc that by (auto simp: count_increasing_def)
    have "?cy < ?cx \<or> (?cy = ?cx \<and> fst y < fst x)"
    proof (cases "?cx < ?cy")
      case True
      from up [OF px True field_count_le] have "snd x < snd y" using vx(1) vy(1) by simp
      with lt show ?thesis by (auto simp: case_prod_beta)
    next
      case False
      show ?thesis
      proof (cases "?cy < ?cx")
        case True
        then show ?thesis by simp
      next
        case False
        with \<open>\<not> ?cx < ?cy\<close> have eq: "?cy = ?cx" by simp
        then have "snd y = snd x" using vx(1) vy(1) by simp
        with lt eq show ?thesis by (auto simp: case_prod_beta)
      qed
    qed
    then show "(case x of (key1, val1) \<Rightarrow> \<lambda>(key2, val2).
          field_count dataset index key2 < field_count dataset index key1
          \<or> (field_count dataset index key2 = field_count dataset index key1 \<and> key2 < key1)) y"
      by (simp add: case_prod_beta)
  qed
  show ?thesis
    apply (rule exI [of _ ?shown])
    using run d s v o1 o2 o3 by (intro conjI impI) assumption+
qed

lemma exact_arith_increasing: "0 < n \<Longrightarrow> count_increasing exact_arith n"
  by (simp add: count_increasing_def exact_arith_def divide_strict_right_mono)

theorem display_table_sorted_witness:
  "list_all (\<lambda>row. \<exists>genre. py_index_int row 1 = Inr genre) example_table
   \<and> count_increasing exact_arith (length example_table)
   \<and> (\<exists>shown. display_table exact_arith example_table 1 = Inr shown
        \<and> shown = [([66], 50), ([68], 25), ([67], 25)]
        \<and> sorted_wrt (\<lambda>(key1, val1) (key2, val2).
            field_count example_table 1 key2 < field_count example_table 1 key1
            \<or> (field_count example_table 1 key2 = field_count example_table 1 key1
               \<and> key2 < key1)) shown)"
proof -
  have h: "\<forall>row\<in>set example_table. \<exists>genre. py_index_int row 1 = Inr genre"
    by (simp add: example_table_def py_index_int_def py_index_def)
  have inc: "count_increasing exact_arith (length example_table)"
    by (rule exact_arith_increasing) (simp add: example_table_def)
  have ev: "display_table exact_arith example_table 1 = Inr [([66], 50), ([68], 25), ([67], 25)]"
    by (simp add: example_table_def display_table_def freq_table_def py_index_int_def
        py_index_def dict_keys_def dict_get_def exact_arith_def sorted_reverse_def)
  from display_table_sorted [OF h, of exact_arith] inc ev
  have "sorted_wrt (\<lambda>(key1, val1) (key2, val2).
            field_count example_table 1 key2 < field_count example_table 1 key1
            \<or> (field_count example_table 1 key2 = field_count example_table 1 key1
               \<and> key2 < key1))
          [([66], 50), ([68], 25), ([67], 25)]"
    by auto
  with ev have 3: "\<exists>shown. display_table exact_arith example_table 1 = Inr shown
        \<and> shown = [([66], 50), ([68], 25), ([67], 25)]
        \<and> sorted_wrt (\<lambda>(key1, val1) (key2, val2).
            field_count example_table 1 key2 < field_count example_table 1 key1
            \<or> (field_count example_table 1 key2 = field_count example_table 1 key1
               \<and> key2 < key1)) shown"
    by blast
  have 1: "list_all (\<lambda>row. \<exists>genre. py_index_int row 1 = Inr genre) example_table"
    using h by (simp only: list_all_iff)
  from 1 inc 3 show ?thesis by (intro conjI)
qed

section \<open>The averages\<close>

lemma avg_inner_char:
  assumes "\<forall>row\<in>set rows. gcol < length row \<and> 5 < length row"
  shows "avg_inner float fa gcol prep category rows total' len =
     (if bad_in float gcol prep category rows then Inl ValueError
      else Inr (foldl (fadd fa) total' (values_of float gcol prep category rows),
                len + length (values_of float gcol prep category rows)))"
  using assms
proof (induction rows arbitrary: total' len)
  case Nil
  then show ?case by (simp add: bad_in_def values_of_def)
next
  case (Cons row rows)
  have ih: "avg_inner float fa gcol prep category rows t l =
     (if bad_in float gcol prep category rows then Inl ValueError
      else Inr (foldl (fadd fa) t (values_of float gcol prep category rows),
                l + length (values_of float gcol prep category rows)))" for t l
    using Cons.prems by (intro Cons.IH) simp
  have len: "gcol < length row" "5 < length row" using Cons.prems by auto
  show ?case
  proof (cases "row ! gcol = category")
    case False
    then show ?thesis
      using len ih by (simp add: py_index_def bad_in_def values_of_def)
  next
    case True
    show ?thesis
    proof (cases "float (prep (row ! 5))")
      case None
      then show ?thesis using len True by (auto simp: py_index_def bad_in_def)
    next
      case (Some x)
      then show ?thesis
        using len True ih by (simp add: py_index_def bad_in_def values_of_def)
    qed
  qed
qed

lemma avg_outer_char:
  assumes rows: "\<forall>row\<in>set d. gcol < length row \<and> 5 < length row"
    and keys: "\<forall>k\<in>set keys. \<exists>row\<in>set d. row ! gcol = k"
    and dist: "distinct keys" "set keys \<inter> set (dict_keys results) = {}"
  shows "avg_outer float fa gcol prep keys d results =
     (if \<exists>k\<in>set keys. bad_in float gcol prep k d then Inl ValueError
      else Inr (results @ map (\<lambda>k. (k, float_mean fa (values_of float gcol prep k d))) keys))"
  using keys dist
proof (induction keys arbitrary: results)
  case Nil
  then show ?case by simp
next
  case (Cons key keys)
  have inner: "avg_inner float fa gcol prep key d (Finite 0) 0 =
     (if bad_in float gcol prep key d then Inl ValueError
      else Inr (foldl (fadd fa) (Finite 0) (values_of float gcol prep key d),
                length (values_of float gcol prep key d)))"
    using avg_inner_char [OF rows, of float fa prep key "Finite 0" 0] by simp
  show ?case
  proof (cases "bad_in float gcol prep key d")
    case True
    then show ?thesis using inner by simp
  next
    case False
    from Cons.prems(1) obtain row where "row \<in> set d" "row ! gcol = key" by auto
    then have pos: "length (values_of float gcol prep key d) \<noteq> 0"
      by (auto simp: values_of_def filter_empty_conv)
    have new: "key \<notin> set (dict_keys results)" using Cons.prems(3) by auto
    let ?r1 = "results @ [(key, float_mean fa (values_of float gcol prep key d))]"
    have ih: "avg_outer float fa gcol prep keys d ?r1 =
       (if \<exists>k\<in>set keys. bad_in float gcol prep k d then Inl ValueError
        else Inr (?r1 @ map (\<lambda>k. (k, float_mean fa (values_of float gcol prep k d))) keys))"
      using Cons.prems by (intro Cons.IH) (auto simp: dict_keys_def)
    show ?thesis
      using False inner pos ih
      by (simp add: dict_set_new [OF new] float_mean_def)
  qed
qed

lemma py_index_int_nat: "py_index_int xs (int n) = py_index xs n"
  by (simp add: py_index_int_def)

lemma compute_char:
  fixes gcol :: nat
  assumes rows: "\<forall>row\<in>set d. gcol < length row \<and> 5 < length row"
  shows "\<exists>keys. distinct keys \<and> set keys = (\<lambda>row. row ! gcol) ` set d \<and>
     (case freq_table fa d (int gcol) of
        Inl e \<Rightarrow> Inl e
      | Inr freq \<Rightarrow> avg_outer float fa gcol prep (dict_keys freq) d []) =
     (if \<exists>row\<in>set d. float (prep (row ! 5)) = None then Inl ValueError
      else Inr (map (\<lambda>k. (k, float_mean fa (values_of float gcol prep k d))) keys))"
proof -
  have idx: "py_index_int row (int gcol) = Inr (row ! gcol)" if "row \<in> set d" for row
    using rows that by (simp add: py_index_int_nat py_index_def)
  then have "\<forall>row\<in>set d. \<exists>g. py_index_int row (int gcol) = Inr g" by blast
  from freq_table_char [OF this, of fa]
  obtain keys where k: "freq_table fa d (int gcol)
         = Inr (map (\<lambda>k. (k, fpercent fa (field_count d (int gcol) k) (length d))) keys)"
    "distinct keys" "set keys = {g. \<exists>row\<in>set d. py_index_int row (int gcol) = Inr g}"
    by blast
  have sk: "set keys = (\<lambda>row. row ! gcol) ` set d"
    using k(3) idx by auto
  have dk: "dict_keys (map (\<lambda>k. (k, fpercent fa (field_count d (int gcol) k) (length d))) keys) = keys"
    by (simp add: dict_keys_def comp_def)
  have ex: "\<forall>k\<in>set keys. \<exists>row\<in>set d. row ! gcol = k" using sk by auto
  have bad: "(\<exists>k\<in>set keys. bad_in float gcol prep k d) = (\<exists>row\<in>set d. float (prep (row ! 5)) = None)"
    using sk by (auto simp: bad_in_def)
  have "avg_outer float fa gcol prep keys d [] =
     (if \<exists>k\<in>set keys. bad_in float gcol prep k d then Inl ValueError
      else Inr ([] @ map (\<lambda>k. (k, float_mean fa (values_of float gcol prep k d))) keys))"
    using rows ex k(2) by (intro avg_outer_char) (auto simp: dict_keys_def)
  then have outer: "avg_outer float fa gcol prep keys d [] =
     (if \<exists>row\<in>set d. float (prep (row ! 5)) = None then Inl ValueError
      else Inr (map (\<lambda>k. (k, float_mean fa (values_of float gcol prep k d))) keys))"
    unfolding bad by simp
  have "(case freq_table fa d (int gcol) of
        Inl e \<Rightarrow> Inl e
      | Inr freq \<Rightarrow> avg_outer float fa gcol prep (dict_keys freq) d []) =
     (if \<exists>row\<in>set d. float (prep (row ! 5)) = None then Inl ValueError
      else Inr (map (\<lambda>k. (k, float_mean fa (values_of float gcol prep k d))) keys))"
    by (simp only: k(1) sum.case dk outer)
  with k(2) sk show ?thesis by blast
qed

lemma map_of_map_keys:
  "map_of (map (\<lambda>k. (k, f k)) keys) k = (if k \<in> set keys then Some (f k) else None)"
  by (induction keys) auto

lemma averages_char:
  fixes gcol :: nat
  assumes "\<forall>row\<in>set d. gcol < length row \<and> 5 < length row \<and> float (prep (row ! 5)) = Some (num row)"
  shows "\<exists>results.
     (case freq_table fa d (int gcol) of
        Inl e \<Rightarrow> Inl e
      | Inr freq \<Rightarrow> avg_outer float fa gcol prep (dict_keys freq) d []) = Inr results
     \<and> distinct (dict_keys results)
     \<and> set (dict_keys results) = (\<lambda>row. row ! gcol) ` set d
     \<and> (\<forall>category\<in>set (dict_keys results).
           map_of results category
             = Some (float_mean fa (map num (filter (\<lambda>row. row ! gcol = category) d))))"
proof -
  have rows: "\<forall>row\<in>set d. gcol < length row \<and> 5 < length row" using assms by simp
  have none: "\<not> (\<exists>row\<in>set d. float (prep (row ! 5)) = None)" using assms by auto
  from compute_char [OF rows, where fa = fa and float = float and prep = prep]
  obtain keys where k: "distinct keys" "set keys = (\<lambda>row. row ! gcol) ` set d"
    "(case freq_table fa d (int gcol) of
        Inl e \<Rightarrow> Inl e
      | Inr freq \<Rightarrow> avg_outer float fa gcol prep (dict_keys freq) d []) =
      Inr (map (\<lambda>k. (k, float_mean fa (values_of float gcol prep k d))) keys)"
    using none by auto
  let ?res = "map (\<lambda>k. (k, float_mean fa (values_of float gcol prep k d))) keys"
  have dk: "dict_keys ?res = keys" by (simp add: dict_keys_def comp_def)
  have vals: "values_of float gcol prep c d = map num (filter (\<lambda>row. row ! gcol = c) d)" for c
    using assms by (auto simp: values_of_def)
  have m: "\<forall>category\<in>set (dict_keys ?res). map_of ?res category
             = Some (float_mean fa (map num (filter (\<lambda>row. row ! gcol = category) d)))"
    unfolding dk by (simp add: map_of_map_keys vals)
  have d1: "distinct (dict_keys ?res)" unfolding dk by (rule k(1))
  have d2: "set (dict_keys ?res) = (\<lambda>row. row ! gcol) ` set d" unfolding dk by (rule k(2))
  show ?thesis
    apply (rule exI [of _ ?res])
    using k(3) d1 d2 m by (intro conjI) assumption+
qed

text \<open>
  Claim C5.  Let every Google Play row have a field 5 that parses, after every \<open>'+'\<close>
  and \<open>','\<close> is deleted, to the float \<open>installs row\<close>.  Then
  \<open>compute_google_category_avg_installs\<close> returns a dictionary whose keys are exactly
  the distinct values of field 1, and whose value for a category is the mean, in float
  arithmetic, of \<open>installs\<close> over the rows of that category.  The same holds of
  \<open>compute_apple_genre_avg_ratings\<close> with field 11 for the genre and field 5, parsed
  as it is, for the number of ratings.  The string "10,000+" becomes "10000" and parses
  to 10000.0.
\<close>

theorem category_averages:
  assumes g: "\<forall>row\<in>set google_data.
         5 < length row \<and> float (str_remove 44 (str_remove 43 (row ! 5))) = Some (installs row)"
    and a: "\<forall>row\<in>set apple_data. 11 < length row \<and> float (row ! 5) = Some (rating row)"
  shows "(\<exists>results.
       compute_google_category_avg_installs float fa google_data = Inr results
     \<and> distinct (dict_keys results)
     \<and> set (dict_keys results) = (\<lambda>row. row ! 1) ` set google_data
     \<and> (\<forall>category\<in>set (dict_keys results).
           map_of results category
             = Some (float_mean fa (map installs (filter (\<lambda>row. row ! 1 = category) google_data)))))
   \<and> (\<exists>results.
       compute_apple_genre_avg_ratings float fa apple_data = Inr results
     \<and> distinct (dict_keys results)
     \<and> set (dict_keys results) = (\<lambda>row. row ! 11) ` set apple_data
     \<and> (\<forall>genre\<in>set (dict_keys results).
           map_of results genre
             = Some (float_mean fa (map rating (filter (\<lambda>row. row ! 11 = genre) apple_data)))))
   \<and> str_remove 44 (str_remove 43 [49, 48, 44, 48, 48, 48, 43]) = [49, 48, 48, 48, 48]
   \<and> float_of_digits [49, 48, 48, 48, 48] = Some (Finite 10000)"
proof -
  have g': "\<forall>row\<in>set google_data. 1 < length row \<and> 5 < length row
       \<and> float (str_remove 44 (str_remove 43 (row ! 5))) = Some (installs row)"
    using g by auto
  have a': "\<forall>row\<in>set apple_data. 11 < length row \<and> 5 < length row
       \<and> float (row ! 5) = Some (rating row)"
    using a by auto
  have 1: "\<exists>results.
       compute_google_category_avg_installs float fa google_data = Inr results
     \<and> distinct (dict_keys results)
     \<and> set (dict_keys results) = (\<lambda>row. row ! 1) ` set google_data
     \<and> (\<forall>category\<in>set (dict_keys results).
           map_of results category
             = Some (float_mean fa (map installs (filter (\<lambda>row. row ! 1 = category) google_data))))"
    using averages_char [where d = google_data and gcol = 1 and float = float and fa = fa
        and prep = "\<lambda>s. str_remove 44 (str_remove 43 s)" and num = installs, OF g']
    by (simp add: compute_google_category_avg_installs_def)
  have 2: "\<exists>results.
       compute_apple_genre_avg_ratings float fa apple_data = Inr results
     \<and> distinct (dict_keys results)
     \<and> set (dict_keys results) = (\<lambda>row. row ! 11) ` set apple_data
     \<and> (\<forall>genre\<in>set (dict_keys results).
           map_of results genre
             = Some (float_mean fa (map rating (filter (\<lambda>row. row ! 11 = genre) apple_data))))"
    using averages_char [where d = apple_data and gcol = 11 and float = float and fa = fa
        and prep = "\<lambda>s. s" and num = rating, OF a']
    by (simp add: compute_apple_genre_avg_ratings_def)
  have 3: "str_remove 44 (str_remove 43 [49, 48, 44, 48, 48, 48, 43]) = [49, 48, 48, 48, 48]"
    by (simp add: str_remove_def)
  have 4: "float_of_digits [49, 48, 48, 48, 48] = Some (Finite 10000)"
    by (simp add: float_of_digits_def digits_value_def)
  from 1 2 3 4 show ?thesis by (intro conjI)
qed

theorem category_averages_witness:
  "list_all (\<lambda>row. 5 < length row
      \<and> float_of_digits (str_remove 44 (str_remove 43 (row ! 5))) = Some (example_installs row))
     example_google
   \<and> list_all (\<lambda>row. 11 < length row \<and> float_of_digits (row ! 5) = Some (example_rating row))
     example_apple
   \<and> (\<exists>results.
        compute_google_category_avg_installs float_of_digits exact_arith example_google = Inr results
      \<and> map_of results [71] = Some (Finite 15000)
      \<and> map_of results [84] = Some (Finite 500))
   \<and> (\<exists>results.
        compute_apple_genre_avg_ratings float_of_digits exact_arith example_apple = Inr results
      \<and> map_of results [88] = Some (Finite 200)
      \<and> map_of results [89] = Some (Finite 7))"
proof -
  have g: "\<forall>row\<in>set example_google. 5 < length row
      \<and> float_of_digits (str_remove 44 (str_remove 43 (row ! 5))) = Some (example_installs row)"
    by (simp add: example_google_def example_installs_def float_of_digits_def digits_value_def
        str_remove_def)
  have a: "\<forall>row\<in>set example_apple. 11 < length row
      \<and> float_of_digits (row ! 5) = Some (example_rating row)"
    by (simp add: example_apple_def example_rating_def float_of_digits_def digits_value_def)
  note t = category_averages [OF g a, where fa = exact_arith]
  from t obtain rg where rg:
    "compute_google_category_avg_installs float_of_digits exact_arith example_google = Inr rg"
    "set (dict_keys rg) = (\<lambda>row. row ! 1) ` set example_google"
    "\<forall>category\<in>set (dict_keys rg). map_of rg category
        = Some (float_mean exact_arith
            (map example_installs (filter (\<lambda>row. row ! 1 = category) example_google)))"
    by blast
  from t obtain ra where ra:
    "compute_apple_genre_avg_ratings float_of_digits exact_arith example_apple = Inr ra"
    "set (dict_keys ra) = (\<lambda>row. row ! 11) ` set example_apple"
    "\<forall>genre\<in>set (dict_keys ra). map_of ra genre
        = Some (float_mean exact_arith
            (map example_rating (filter (\<lambda>row. row ! 11 = genre) example_apple)))"
    by blast
  have kg: "[71] \<in> set (dict_keys rg)" "[84] \<in> set (dict_keys rg)"
    unfolding rg(2) by (simp_all add: example_google_def)
  have ka: "[88] \<in> set (dict_keys ra)" "[89] \<in> set (dict_keys ra)"
    unfolding ra(2) by (simp_all add: example_apple_def)
  have m1: "float_mean exact_arith
      (map example_installs (filter (\<lambda>row. row ! 1 = [71]) example_google)) = Finite 15000"
    by (simp add: example_google_def example_installs_def float_of_digits_def digits_value_def
        str_remove_def float_mean_def exact_arith_def)
  have m2: "float_mean exact_arith
      (map example_installs (filter (\<lambda>row. row ! 1 = [84]) example_google)) = Finite 500"
    by (simp add: example_google_def example_installs_def float_of_digits_def digits_value_def
        str_remove_def float_mean_def exact_arith_def)
  have m3: "float_mean exact_arith
      (map example_rating (filter (\<lambda>row. row ! 11 = [88]) example_apple)) = Finite 200"
    by (simp add: example_apple_def example_rating_def float_of_digits_def digits_value_def
        float_mean_def exact_arith_def)
  have m4: "float_mean exact_arith
      (map example_rating (filter (\<lambda>row. row ! 11 = [89]) example_apple)) = Finite 7"
    by (simp add: example_apple_def example_rating_def float_of_digits_def digits_value_def
        float_mean_def exact_arith_def)
  have 3: "\<exists>results.
        compute_google_category_avg_installs float_of_digits exact_arith example_google = Inr results
      \<and> map_of results [71] = Some (Finite 15000)
      \<and> map_of results [84] = Some (Finite 500)"
    using rg(1) rg(3) kg m1 m2 by (intro exI [of _ rg]) simp
  have 4: "\<exists>results.
        compute_apple_genre_avg_ratings float_of_digits exact_arith example_apple = Inr results
      \<and> map_of results [88] = Some (Finite 200)
      \<and> map_of results [89] = Some (Finite 7)"
    using ra(1) ra(3) ka m3 m4 by (intro exI [of _ ra]) simp
  have 1: "list_all (\<lambda>row. 5 < length row
      \<and> float_of_digits (str_remove 44 (str_remove 43 (row ! 5))) = Some (example_installs row))
     example_google"
    using g by (simp only: list_all_iff)
  have 2: "list_all (\<lambda>row. 11 < length row \<and> float_of_digits (row ! 5) = Some (example_rating row))
     example_apple"
    using a by (simp only: list_all_iff)
  from 1 2 3 4 show ?thesis by (intro conjI)
qed

section \<open>Fields that do not parse\<close>

lemma createdicodup_loop_bad:
  assumes "\<forall>app\<in>set d. 3 < length app" "\<exists>app\<in>set d. float (app ! 3) = None"
  shows "createdicodup_loop float d rm = Inl ValueError"
  using assms
proof (induction d arbitrary: rm)
  case Nil
  then show ?case by simp
next
  case (Cons app rest)
  have len: "0 < length app" "3 < length app" using Cons.prems(1) by auto
  show ?case
  proof (cases "float (app ! 3)")
    case None
    then show ?thesis using len by (simp add: py_index_def)
  next
    case (Some v)
    then have "\<exists>app\<in>set rest. float (app ! 3) = None" using Cons.prems(2) by auto
    then have "createdicodup_loop float rest rm' = Inl ValueError" for rm'
      using Cons.prems(1) by (intro Cons.IH) auto
    then show ?thesis using len Some by (simp add: py_index_def)
  qed
qed

lemma createdicodup_value_error:
  assumes "\<forall>app\<in>set d. 3 < length app"
  shows "(createdicodup float d = Inl ValueError) = (\<exists>app\<in>set d. float (app ! 3) = None)"
    and "(\<exists>rm. createdicodup float d = Inr rm) = (\<not> (\<exists>app\<in>set d. float (app ! 3) = None))"
proof -
  have bad: "createdicodup float d = Inl ValueError" if "\<exists>app\<in>set d. float (app ! 3) = None"
    using createdicodup_loop_bad [OF assms that] by (simp add: createdicodup_def)
  have good: "\<exists>rm. createdicodup float d = Inr rm" if "\<not> (\<exists>app\<in>set d. float (app ! 3) = None)"
  proof -
    have "\<forall>app\<in>set d. 3 < length app \<and> float (app ! 3) \<noteq> None" using assms that by auto
    from createdicodup_loop_total [OF this, of "[]"] show ?thesis
      by (auto simp: createdicodup_def)
  qed
  show "(createdicodup float d = Inl ValueError) = (\<exists>app\<in>set d. float (app ! 3) = None)"
    using bad good by (metis sum.distinct(1))
  show "(\<exists>rm. createdicodup float d = Inr rm) = (\<not> (\<exists>app\<in>set d. float (app ! 3) = None))"
    using bad good by (metis sum.distinct(1))
qed

lemma compute_google_value_error:
  assumes "\<forall>row\<in>set d. 5 < length row"
  shows "compute_google_category_avg_installs float fa d =
     (if \<exists>row\<in>set d. float (str_remove 44 (str_remove 43 (row ! 5))) = None
      then Inl ValueError
      else compute_google_category_avg_installs float fa d)"
    and "\<not> (\<exists>row\<in>set d. float (str_remove 44 (str_remove 43 (row ! 5))) = None) \<Longrightarrow>
      \<exists>res. compute_google_category_avg_installs float fa d = Inr res"
proof -
  have rows: "\<forall>row\<in>set d. 1 < length row \<and> 5 < length row" using assms by auto
  from compute_char [OF rows, where fa = fa and float = float
      and prep = "\<lambda>s. str_remove 44 (str_remove 43 s)"]
  obtain keys where k: "compute_google_category_avg_installs float fa d =
     (if \<exists>row\<in>set d. float (str_remove 44 (str_remove 43 (row ! 5))) = None then Inl ValueError
      else Inr (map (\<lambda>k. (k, float_mean fa
          (values_of float 1 (\<lambda>s. str_remove 44 (str_remove 43 s)) k d))) keys))"
    by (auto simp: compute_google_category_avg_installs_def)
  show "compute_google_category_avg_installs float fa d =
     (if \<exists>row\<in>set d. float (str_remove 44 (str_remove 43 (row ! 5))) = None
      then Inl ValueError
      else compute_google_category_avg_installs float fa d)"
    using k by simp
  show "\<not> (\<exists>row\<in>set d. float (str_remove 44 (str_remove 43 (row ! 5))) = None) \<Longrightarrow>
      \<exists>res. compute_google_category_avg_installs float fa d = Inr res"
    using k by simp
qed

text \<open>
  Claim C7.  Let every row have the fields the functions read.  Then \<open>createdicodup\<close>
  raises ValueError (the MalformedNumberError of the specification) exactly when field 3
  of some row does not parse, and returns a dictionary exactly when every one parses;
  \<open>compute_google_category_avg_installs\<close> raises ValueError exactly when field 5 of
  some row, with every \<open>'+'\<close> and \<open>','\<close> deleted, does not parse, and returns a
  dictionary exactly when every one parses.  A row that does not parse is never skipped:
  the function returns no result.
\<close>

theorem parse_failure_escalates:
  assumes d: "\<forall>app\<in>set dataset. 3 < length app"
    and g: "\<forall>row\<in>set google_data. 5 < length row"
  shows "((createdicodup float dataset = Inl ValueError)
            = (\<exists>app\<in>set dataset. float (app ! 3) = None))
     \<and> ((\<exists>reviews_max. createdicodup float dataset = Inr reviews_max)
            = (\<not> (\<exists>app\<in>set dataset. float (app ! 3) = None)))
     \<and> ((compute_google_category_avg_installs float fa google_data = Inl ValueError)
            = (\<exists>row\<in>set google_data. float (str_remove 44 (str_remove 43 (row ! 5))) = None))
     \<and> ((\<exists>results. compute_google_category_avg_installs float fa google_data = Inr results)
            = (\<not> (\<exists>row\<in>set google_data. float (str_remove 44 (str_remove 43 (row ! 5))) = None)))"
proof -
  note c = createdicodup_value_error [OF d, where float = float]
  note v = compute_google_value_error [OF g, where float = float and fa = fa]
  have 3: "(compute_google_category_avg_installs float fa google_data = Inl ValueError)
            = (\<exists>row\<in>set google_data. float (str_remove 44 (str_remove 43 (row ! 5))) = None)"
    using v by (metis sum.distinct(1))
  have 4: "(\<exists>results. compute_google_category_avg_installs float fa google_data = Inr results)
            = (\<not> (\<exists>row\<in>set google_data. float (str_remove 44 (str_remove 43 (row ! 5))) = None))"
    using v by (metis sum.distinct(1))
  from c 3 4 show ?thesis by (intro conjI)
qed

theorem parse_failure_escalates_witness:
  "list_all (\<lambda>app. 3 < length app) example_corrupt
   \<and> list_all (\<lambda>row. 5 < length row) example_corrupt
   \<and> createdicodup float_of_digits example_corrupt = Inl ValueError
   \<and> compute_google_category_avg_installs float_of_digits exact_arith example_corrupt
       = Inl ValueError
   \<and> (\<exists>reviews_max. createdicodup float_of_digits example_google = Inr reviews_max)
   \<and> (\<exists>results. compute_google_category_avg_installs float_of_digits exact_arith example_google
                   = Inr results)"
proof -
  have c3: "\<forall>app\<in>set example_corrupt. 3 < length app" by (simp add: example_corrupt_def)
  have c5: "\<forall>row\<in>set example_corrupt. 5 < length row" by (simp add: example_corrupt_def)
  have g3: "\<forall>app\<in>set example_google. 3 < length app" by (simp add: example_google_def)
  have g5: "\<forall>row\<in>set example_google. 5 < length row" by (simp add: example_google_def)
  have bad3: "\<exists>app\<in>set example_corrupt. float_of_digits (app ! 3) = None"
    by (simp add: example_corrupt_def float_of_digits_def)
  have bad5: "\<exists>row\<in>set example_corrupt.
      float_of_digits (str_remove 44 (str_remove 43 (row ! 5))) = None"
    by (simp add: example_corrupt_def float_of_digits_def str_remove_def)
  have ok3: "\<not> (\<exists>app\<in>set example_google. float_of_digits (app ! 3) = None)"
    by (simp add: example_google_def float_of_digits_def digits_value_def)
  have ok5: "\<not> (\<exists>row\<in>set example_google.
      float_of_digits (str_remove 44 (str_remove 43 (row ! 5))) = None)"
    by (simp add: example_google_def float_of_digits_def digits_value_def str_remove_def)
  note bad = parse_failure_escalates [OF c3 c5, where float = float_of_digits and fa = exact_arith]
  note good = parse_failure_escalates [OF g3 g5, where float = float_of_digits and fa = exact_arith]
  have 1: "createdicodup float_of_digits example_corrupt = Inl ValueError"
    using bad bad3 by blast
  have 2: "compute_google_category_avg_installs float_of_digits exact_arith example_corrupt
       = Inl ValueError"
    using bad bad5 by blast
  have 3: "\<exists>reviews_max. createdicodup float_of_digits example_google = Inr reviews_max"
    using good ok3 by blast
  have 4: "\<exists>results. compute_google_category_avg_installs float_of_digits exact_arith example_google
                   = Inr results"
    using good ok5 by blast
  have 5: "list_all (\<lambda>app. 3 < length app) example_corrupt" using c3 by (simp only: list_all_iff)
  have 6: "list_all (\<lambda>row. 5 < length row) example_corrupt" using c5 by (simp only: list_all_iff)
  from 5 6 1 2 3 4 show ?thesis by (intro conjI)
qed

end
